theory Spec2Isabelle
  imports Main
begin

section \<open>The column dropper \<^verbatim>\<open>src/data/convert.py\<close>\<close>

text \<open>
  The program is a script of four statements over the pandas library:
  \<^verbatim>\<open>df = pd.read_csv(input_file)\<close>, \<^verbatim>\<open>df = df.iloc[:, 1:]\<close>,
  \<^verbatim>\<open>df.to_csv(output_file, index=False)\<close> and a \<^verbatim>\<open>print\<close>.
  The embedding has three layers: the file system and console the script acts on,
  the script itself (\<open>main\<close>), and the default code path of the three library calls
  (pandas 2.x on CPython 3.11, C parser, all keyword arguments at their defaults).

  File contents are byte strings. The reader decodes them as UTF-8 and raises an
  exception on bytes that are not; its tokenizer and the writer work on the bytes of
  the decoded text. What the library does with 64-bit floating point numbers, and the
  few paths of the reader that are not spelled out below, are parameters of the model
  (\<open>platform\<close>): every theorem holds for every value of them.
\<close>

subsection \<open>Errors, tables, platform\<close>

datatype error =
    FileNotFoundError   \<comment> \<open>the source path does not exist\<close>
  | UnicodeDecodeError  \<comment> \<open>the source is not UTF-8 text\<close>
  | EmptyDataError      \<comment> \<open>\<^verbatim>\<open>No columns to parse from file\<close>\<close>
  | ParserError         \<comment> \<open>\<^verbatim>\<open>Error tokenizing data\<close>\<close>
  | OSError             \<comment> \<open>the destination cannot be opened for writing\<close>
  | OtherError          \<comment> \<open>any other exception of the library\<close>

text \<open>A value of a \<^verbatim>\<open>DataFrame\<close>: \<open>'f\<close> is the type of 64-bit floats.\<close>

datatype 'f cell = IntC int | FloatC 'f | BoolC bool | StrC string | NaN

text \<open>
  A \<^verbatim>\<open>DataFrame\<close> with the default row index: the column labels and the rows, each
  row holding one value per column. A table without columns still has its rows.
\<close>

record 'f frame =
  columns :: "string list"
  body :: "'f cell list list"

definition ncols :: "'f frame \<Rightarrow> nat" where
  "ncols df = length (columns df)"

definition nrows :: "'f frame \<Rightarrow> nat" where
  "nrows df = length (body df)"

definition wf_frame :: "'f frame \<Rightarrow> bool" where
  "wf_frame df = list_all (\<lambda>r. length r = length (columns df)) (body df)"

record 'f platform =
  str_to_double :: "string \<Rightarrow> 'f option"
    \<comment> \<open>the reader's float parser: \<open>None\<close> when the token is not a float\<close>
  int_to_double :: "int \<Rightarrow> 'f"
    \<comment> \<open>\<^verbatim>\<open>astype(float)\<close> of an int64\<close>
  repr_double :: "'f \<Rightarrow> string"
    \<comment> \<open>the text the writer produces for a float\<close>
  linesep :: string
    \<comment> \<open>\<^verbatim>\<open>os.linesep\<close>, the writer's line terminator\<close>
  convert_tokens_other :: "string list \<Rightarrow> 'f cell list"
    \<comment> \<open>conversion of a column with an integer beyond int64, or read in several chunks\<close>
  read_csv_other :: "string \<Rightarrow> error + 'f frame"
    \<comment> \<open>the reader on text with a NUL byte or a bare carriage return, rows of differing
        field counts, or empty or repeated header fields\<close>

subsection \<open>Characters and numbers\<close>

definition LF :: char where "LF = CHR 0x0A"
definition CR :: char where "CR = CHR 0x0D"
definition TAB :: char where "TAB = CHR 0x09"
definition COMMA :: char where "COMMA = CHR '',''"
definition QUOTE :: char where "QUOTE = CHR 0x22"
definition NUL :: char where "NUL = CHR 0x00"

definition isspace_ascii :: "char \<Rightarrow> bool" where
  "isspace_ascii c = (c = CHR '' '' \<or> (9::nat) \<le> of_char c \<and> of_char c \<le> (13::nat))"

definition isdigit_ascii :: "char \<Rightarrow> bool" where
  "isdigit_ascii c = ((48::nat) \<le> of_char c \<and> of_char c \<le> (57::nat))"

definition digit_val :: "char \<Rightarrow> nat" where
  "digit_val c = of_char c - 48"

definition digits_val :: "string \<Rightarrow> nat" where
  "digits_val ds = foldl (\<lambda>n c. 10 * n + digit_val c) 0 ds"

fun str_nat :: "nat \<Rightarrow> string" where
  "str_nat n = (if n < 10 then [''0123456789'' ! n]
                else str_nat (n div 10) @ [''0123456789'' ! (n mod 10)])"

declare str_nat.simps [simp del]

text \<open>Python's \<^verbatim>\<open>str\<close> of an integer.\<close>

definition str_int :: "int \<Rightarrow> string" where
  "str_int i = (if i < 0 then CHR ''-'' # str_nat (nat (- i)) else str_nat (nat i))"

definition INT64_MAX :: int where "INT64_MAX = 9223372036854775807"
definition INT64_MIN :: int where "INT64_MIN = - 9223372036854775808"

subsection \<open>The reader's tokenizer\<close>

text \<open>
  The state machine of the C tokenizer with the defaults of \<^verbatim>\<open>read_csv\<close>: delimiter
  \<open>,\<close>, quote character \<open>"\<close> with doubling, no escape or comment character, blank lines
  skipped. A carriage return directly before a line feed or at the end of the text ends
  the line as the line feed alone does; any other carriage return outside quotes leaves
  the modelled part (\<open>Lone_CR\<close>). The tokenizer keeps a field as a C string, which
  ends at its first NUL byte: a NUL byte anywhere in the text leaves the modelled part
  as well (\<open>NUL_byte\<close>).
\<close>

datatype tstate =
  START_RECORD | START_FIELD | IN_FIELD | IN_QUOTED_FIELD | QUOTE_IN_QUOTED_FIELD
  | WHITESPACE_LINE

datatype tokens = Tokens "string list list" | EOF_inside_string | Lone_CR | NUL_byte

text \<open>
  \<open>tokenize_bytes st f fs ls cs\<close>: \<open>st\<close> is the state, \<open>f\<close> the characters of the field
  being read (in \<open>WHITESPACE_LINE\<close>: the blanks seen so far on the line), \<open>fs\<close> the
  finished fields of the line, \<open>ls\<close> the finished lines, \<open>cs\<close> the rest of the text.
\<close>

fun tokenize_bytes ::
  "tstate \<Rightarrow> string \<Rightarrow> string list \<Rightarrow> string list list \<Rightarrow> string \<Rightarrow> tokens" where
  "tokenize_bytes st f fs ls [] =
     (if st = IN_QUOTED_FIELD then EOF_inside_string
      else if st = START_RECORD \<or> st = WHITESPACE_LINE then Tokens ls
      else Tokens (ls @ [fs @ [f]]))"
| "tokenize_bytes st f fs ls (c # cs) =
     (if c = NUL then NUL_byte
      else if st = IN_QUOTED_FIELD then
        (if c = QUOTE then tokenize_bytes QUOTE_IN_QUOTED_FIELD f fs ls cs
         else tokenize_bytes IN_QUOTED_FIELD (f @ [c]) fs ls cs)
      else if c = CR \<and> cs \<noteq> [] \<and> hd cs \<noteq> LF then Lone_CR
      else if c = CR \<and> cs \<noteq> [] then tokenize_bytes st f fs ls cs
      else if c = LF \<or> c = CR then
        (if st = START_RECORD \<or> st = WHITESPACE_LINE
         then tokenize_bytes START_RECORD [] [] ls cs
         else tokenize_bytes START_RECORD [] [] (ls @ [fs @ [f]]) cs)
      else if st = START_RECORD \<and> (c = CHR '' '' \<or> c = TAB) then
        tokenize_bytes WHITESPACE_LINE [c] [] ls cs
      else if st = WHITESPACE_LINE \<and> (c = CHR '' '' \<or> c = TAB) then
        tokenize_bytes WHITESPACE_LINE (f @ [c]) [] ls cs
      else if st = START_RECORD \<or> st = START_FIELD then
        (if c = QUOTE then tokenize_bytes IN_QUOTED_FIELD [] fs ls cs
         else if c = COMMA then tokenize_bytes START_FIELD [] (fs @ [[]]) ls cs
         else tokenize_bytes IN_FIELD [c] fs ls cs)
      else if st = QUOTE_IN_QUOTED_FIELD \<and> c = QUOTE then
        tokenize_bytes IN_QUOTED_FIELD (f @ [c]) fs ls cs
      else if c = COMMA then tokenize_bytes START_FIELD [] (fs @ [f]) ls cs
      else tokenize_bytes IN_FIELD (f @ [c]) fs ls cs)"

declare tokenize_bytes.simps [simp del]

text \<open>A UTF-8 byte order mark at the start of the text is skipped.\<close>

definition skip_bom :: "string \<Rightarrow> string" where
  "skip_bom cs = (if take 3 cs = [CHR 0xEF, CHR 0xBB, CHR 0xBF] then drop 3 cs else cs)"

definition tokenize :: "string \<Rightarrow> tokens" where
  "tokenize cs = tokenize_bytes START_RECORD [] [] [] (skip_bom cs)"

subsection \<open>The reader's type inference\<close>

text \<open>The strings \<^verbatim>\<open>read_csv\<close> reads as a missing value (\<^verbatim>\<open>STR_NA_VALUES\<close>).\<close>

definition na_values :: "string list" where
  "na_values = ['''', ''#N/A'', ''#N/A N/A'', ''#NA'', ''-1.#IND'', ''-1.#QNAN'', ''-NaN'',
     ''-nan'', ''1.#IND'', ''1.#QNAN'', ''<NA>'', ''N/A'', ''NA'', ''NULL'', ''NaN'', ''None'',
     ''n/a'', ''nan'', ''null'']"

definition is_na :: "string \<Rightarrow> bool" where
  "is_na w = (w \<in> set na_values)"

datatype int_parse = Int_ok int | ERROR_NO_DIGITS | ERROR_OVERFLOW | ERROR_INVALID_CHARS

text \<open>
  \<^verbatim>\<open>str_to_int64\<close>: blanks, an optional sign, at least one digit, blanks. The overflow
  is found while the digits are read, before the rest of the token is looked at.
\<close>

definition str_to_int64 :: "string \<Rightarrow> int_parse" where
  "str_to_int64 w =
     (let p = dropWhile isspace_ascii w;
          isneg = (p \<noteq> [] \<and> hd p = CHR ''-'');
          q = (if p \<noteq> [] \<and> (hd p = CHR ''-'' \<or> hd p = CHR ''+'') then tl p else p);
          n = int (digits_val (takeWhile isdigit_ascii q))
      in if takeWhile isdigit_ascii q = [] then ERROR_NO_DIGITS
         else if (if isneg then - n < INT64_MIN else INT64_MAX < n) then ERROR_OVERFLOW
         else if dropWhile isspace_ascii (dropWhile isdigit_ascii q) \<noteq> []
           then ERROR_INVALID_CHARS
         else Int_ok (if isneg then - n else n))"

datatype 'a attempt = Converted 'a | Not_this_dtype | Overflowed

text \<open>
  \<^verbatim>\<open>_try_int64\<close> reads the column from the top and stops at the first token that is
  neither missing nor an int64.
\<close>

fun try_int64 :: "string list \<Rightarrow> int option list attempt" where
  "try_int64 [] = Converted []"
| "try_int64 (w # ws) =
     (if is_na w then
        (case try_int64 ws of Converted vs \<Rightarrow> Converted (None # vs) | r \<Rightarrow> r)
      else (case str_to_int64 w of
          Int_ok v \<Rightarrow> (case try_int64 ws of Converted vs \<Rightarrow> Converted (Some v # vs) | r \<Rightarrow> r)
        | ERROR_OVERFLOW \<Rightarrow> Overflowed
        | _ \<Rightarrow> Not_this_dtype))"

text \<open>
  \<^verbatim>\<open>_maybe_upcast\<close>: an integer column with a missing value becomes a float column; the
  entries equal to the sentinel of a missing value (\<open>INT64_MIN\<close>) become \<open>NaN\<close>.
\<close>

definition maybe_upcast :: "'f platform \<Rightarrow> int option \<Rightarrow> 'f cell" where
  "maybe_upcast lib v =
     (case v of None \<Rightarrow> NaN
      | Some i \<Rightarrow> if i = INT64_MIN then NaN else FloatC (int_to_double lib i))"

definition int_column :: "'f platform \<Rightarrow> int option list \<Rightarrow> 'f cell list" where
  "int_column lib vs =
     (if None \<in> set vs then map (maybe_upcast lib) vs
      else map (\<lambda>v. case v of Some i \<Rightarrow> IntC i | None \<Rightarrow> NaN) vs)"

fun try_double :: "'f platform \<Rightarrow> string list \<Rightarrow> 'f cell list option" where
  "try_double lib [] = Some []"
| "try_double lib (w # ws) =
     (if is_na w then map_option ((#) NaN) (try_double lib ws)
      else (case str_to_double lib w of
          None \<Rightarrow> None
        | Some x \<Rightarrow> map_option ((#) (FloatC x)) (try_double lib ws)))"

text \<open>\<^verbatim>\<open>to_boolean\<close>: \<^verbatim>\<open>TRUE\<close> and \<^verbatim>\<open>FALSE\<close> in any mix of upper and lower case.\<close>

definition upper :: "char \<Rightarrow> char" where
  "upper c = (if (97::nat) \<le> of_char c \<and> of_char c \<le> (122::nat)
              then char_of (of_char c - (32::nat)) else c)"

definition to_boolean :: "string \<Rightarrow> bool option" where
  "to_boolean w =
     (if map upper w = ''TRUE'' then Some True
      else if map upper w = ''FALSE'' then Some False else None)"

fun try_bool_flex :: "string list \<Rightarrow> 'f cell list option" where
  "try_bool_flex [] = Some []"
| "try_bool_flex (w # ws) =
     (if is_na w then map_option ((#) NaN) (try_bool_flex ws)
      else (case to_boolean w of
          None \<Rightarrow> None
        | Some b \<Rightarrow> map_option ((#) (BoolC b)) (try_bool_flex ws)))"

definition string_convert :: "string list \<Rightarrow> 'f cell list" where
  "string_convert ws = map (\<lambda>w. if is_na w then NaN else StrC w) ws"

text \<open>
  \<^verbatim>\<open>_convert_tokens\<close> tries int64, float64, bool and object in this order
  (\<^verbatim>\<open>dtype_cast_order\<close>).
\<close>

definition convert_tokens :: "'f platform \<Rightarrow> string list \<Rightarrow> 'f cell list" where
  "convert_tokens lib ws =
     (case try_int64 ws of
        Overflowed \<Rightarrow> convert_tokens_other lib ws
      | Converted vs \<Rightarrow> int_column lib vs
      | Not_this_dtype \<Rightarrow>
          (case try_double lib ws of
             Some xs \<Rightarrow> xs
           | None \<Rightarrow>
               (case try_bool_flex ws of
                  Some bs \<Rightarrow> bs
                | None \<Rightarrow> string_convert ws)))"

text \<open>
  With \<^verbatim>\<open>low_memory=True\<close> the reader converts \<open>buffer_lines\<close> rows at a time and
  infers the types of every chunk on its own:
  \<^verbatim>\<open>heuristic = 2**20 // table_width; buffer_lines = 1;
  while buffer_lines * 2 < heuristic: buffer_lines *= 2\<close>.
  The loop starts at 1, so the test \<open>0 < b\<close>, which the termination proof needs, is
  always true.
\<close>

function buffer_lines_loop :: "nat \<Rightarrow> nat \<Rightarrow> nat" where
  "buffer_lines_loop heuristic b =
     (if 0 < b \<and> b * 2 < heuristic then buffer_lines_loop heuristic (b * 2) else b)"
  by pat_completeness auto
termination
  by (relation "measure (\<lambda>(h, b). h - b)") auto

declare buffer_lines_loop.simps [simp del]

definition buffer_lines :: "nat \<Rightarrow> nat" where
  "buffer_lines table_width = buffer_lines_loop (2 ^ 20 div table_width) 1"

text \<open>
  A column read in one chunk is converted by \<open>convert_tokens\<close>; a longer one is left to
  the parameter. A column always has one value for each row: a value of the parameter
  of another length is cut or filled to it.
\<close>

definition fit :: "nat \<Rightarrow> 'f cell list \<Rightarrow> 'f cell list" where
  "fit n cs = take n (cs @ replicate n NaN)"

definition convert_column :: "'f platform \<Rightarrow> nat \<Rightarrow> string list \<Rightarrow> 'f cell list" where
  "convert_column lib table_width ws =
     (if buffer_lines table_width < length ws then fit (length ws) (convert_tokens_other lib ws)
      else fit (length ws) (convert_tokens lib ws))"

subsection \<open>\<^verbatim>\<open>pd.read_csv\<close>\<close>

text \<open>
  The first line that is not blank is the header. Where every row has as many fields
  as the header and the header fields are non-empty and pairwise distinct, the column
  labels are the header fields, and every column is converted on its own. Rows of
  another length (which the reader fills, takes as an index or rejects), header
  fields that the reader renames (empty or repeated ones) and text with a NUL byte or a
  bare carriage return are left to the parameter \<open>read_csv_other\<close>; a \<^verbatim>\<open>DataFrame\<close> is rectangular, so a value of the parameter that
  is not counts as an exception.
\<close>

definition column :: "nat \<Rightarrow> 'a list list \<Rightarrow> 'a list" where
  "column j rows = map (\<lambda>r. r ! j) rows"

definition rows_of :: "nat \<Rightarrow> 'a list list \<Rightarrow> 'a list list" where
  "rows_of n cols = map (\<lambda>i. map (\<lambda>c. c ! i) cols) [0..<n]"

definition other :: "'f platform \<Rightarrow> string \<Rightarrow> error + 'f frame" where
  "other lib text =
     (case read_csv_other lib text of
        Inl e \<Rightarrow> Inl e
      | Inr df \<Rightarrow> if wf_frame df then Inr df else Inl OtherError)"

definition read_csv :: "'f platform \<Rightarrow> string \<Rightarrow> error + 'f frame" where
  "read_csv lib text =
     (case tokenize text of
        EOF_inside_string \<Rightarrow> Inl ParserError
      | Lone_CR \<Rightarrow> other lib text
      | NUL_byte \<Rightarrow> other lib text
      | Tokens [] \<Rightarrow> Inl EmptyDataError
      | Tokens (header # rows) \<Rightarrow>
          if list_all (\<lambda>r. length r = length header) rows \<and> [] \<notin> set header \<and> distinct header
          then Inr \<lparr>columns = header,
                    body = rows_of (length rows)
                      (map (\<lambda>j. convert_column lib (length header) (column j rows))
                        [0..<length header])\<rparr>
          else other lib text)"

subsection \<open>\<^verbatim>\<open>df.iloc[:, k:]\<close>\<close>

text \<open>A slice never raises: past the last column it selects nothing.\<close>

definition iloc_cols :: "nat \<Rightarrow> 'f frame \<Rightarrow> 'f frame" where
  "iloc_cols k df = \<lparr>columns = drop k (columns df), body = map (drop k) (body df)\<rparr>"

subsection \<open>\<^verbatim>\<open>df.to_csv(path, index=False)\<close>\<close>

text \<open>
  The text of a value: a missing value is the empty string (\<^verbatim>\<open>na_rep\<close>), everything
  else its \<^verbatim>\<open>str\<close>.
\<close>

definition render :: "'f platform \<Rightarrow> 'f cell \<Rightarrow> string" where
  "render lib v =
     (case v of
        IntC i \<Rightarrow> str_int i
      | FloatC x \<Rightarrow> repr_double lib x
      | BoolC b \<Rightarrow> (if b then ''True'' else ''False'')
      | StrC s \<Rightarrow> s
      | NaN \<Rightarrow> [])"

text \<open>
  \<^verbatim>\<open>csv.writer\<close> with \<^verbatim>\<open>QUOTE_MINIMAL\<close>: a field with a delimiter, a quote, a
  carriage return, a line feed or a character of the line terminator is quoted, its
  quotes doubled; a record of one empty field is written as two quotes; a record
  without fields is the line terminator alone.
\<close>

definition special :: "'f platform \<Rightarrow> char \<Rightarrow> bool" where
  "special lib c = (c = COMMA \<or> c = QUOTE \<or> c = CR \<or> c = LF \<or> c \<in> set (linesep lib))"

definition join_append :: "'f platform \<Rightarrow> string \<Rightarrow> string" where
  "join_append lib s =
     (if list_ex (special lib) s
      then QUOTE # concat (map (\<lambda>c. if c = QUOTE then [c, c] else [c]) s) @ [QUOTE]
      else s)"

fun join_fields :: "string list \<Rightarrow> string" where
  "join_fields [] = []"
| "join_fields [x] = x"
| "join_fields (x # y # ys) = x @ COMMA # join_fields (y # ys)"

definition writerow :: "'f platform \<Rightarrow> string list \<Rightarrow> string" where
  "writerow lib row =
     (if row = [[]] then [QUOTE, QUOTE] else join_fields (map (join_append lib) row))
     @ linesep lib"

definition to_csv :: "'f platform \<Rightarrow> 'f frame \<Rightarrow> string" where
  "to_csv lib df =
     concat (map (writerow lib) (columns df # map (map (render lib)) (body df)))"

subsection \<open>Decoding the source\<close>

text \<open>
  The bytes of the file are decoded with the codec \<^verbatim>\<open>utf-8\<close> and
  \<^verbatim>\<open>errors='strict'\<close>: well-formed are the sequences of the Unicode standard, without
  overlong forms, surrogates and code points beyond \<^verbatim>\<open>U+10FFFF\<close>.
\<close>

definition between :: "nat \<Rightarrow> char \<Rightarrow> nat \<Rightarrow> bool" where
  "between lo c hi = (lo \<le> of_char c \<and> of_char c \<le> hi)"

fun valid_utf8 :: "string \<Rightarrow> bool" where
  "valid_utf8 [] = True"
| "valid_utf8 (a # cs) =
     (if between 0x00 a 0x7F then valid_utf8 cs
      else if between 0xC2 a 0xDF then
        (case cs of
           b # cs1 \<Rightarrow> between 0x80 b 0xBF \<and> valid_utf8 cs1
         | _ \<Rightarrow> False)
      else if between 0xE0 a 0xEF then
        (case cs of
           b # c # cs2 \<Rightarrow>
             between (if a = CHR 0xE0 then 0xA0 else 0x80) b (if a = CHR 0xED then 0x9F else 0xBF)
             \<and> between 0x80 c 0xBF \<and> valid_utf8 cs2
         | _ \<Rightarrow> False)
      else if between 0xF0 a 0xF4 then
        (case cs of
           b # c # d # cs3 \<Rightarrow>
             between (if a = CHR 0xF0 then 0x90 else 0x80) b (if a = CHR 0xF4 then 0x8F else 0xBF)
             \<and> between 0x80 c 0xBF \<and> between 0x80 d 0xBF \<and> valid_utf8 cs3
         | _ \<Rightarrow> False)
      else False)"

declare valid_utf8.simps [simp del]

subsection \<open>The script\<close>

text \<open>
  The world the script runs in: the files by path, the paths that can be opened for
  writing, and the text printed so far.
\<close>

record world =
  files :: "string \<rightharpoonup> string"
  writable :: "string \<Rightarrow> bool"
  stdout :: string

definition input_file :: string where
  "input_file = ''C:/Users/dlisz/Desktop/Rust Projects/First Rust Project/my_project/src/data/2018-09-01-2024-Bitfinex_Spot-4h.csv''"

definition output_file :: string where
  "output_file = ''C:/Users/dlisz/Desktop/Rust Projects/First Rust Project/my_project/src/data/2018-09-01-2024-Bitfinex_Spot-4h-puta.csv''"

text \<open>
  The file is opened and its bytes are decoded before the reader sees them: a missing
  file and bytes that are not UTF-8 end the call with an exception.
\<close>

definition pd_read_csv :: "'f platform \<Rightarrow> world \<Rightarrow> string \<Rightarrow> error + 'f frame" where
  "pd_read_csv lib w path =
     (case files w path of
        None \<Rightarrow> Inl FileNotFoundError
      | Some bytes \<Rightarrow> if valid_utf8 bytes then read_csv lib bytes else Inl UnicodeDecodeError)"

definition df_to_csv :: "'f platform \<Rightarrow> 'f frame \<Rightarrow> string \<Rightarrow> world \<Rightarrow> error + world" where
  "df_to_csv lib df path w =
     (if writable w path then Inr (w\<lparr>files := (files w)(path \<mapsto> to_csv lib df)\<rparr>)
      else Inl OSError)"

definition print :: "string \<Rightarrow> world \<Rightarrow> world" where
  "print s w = w\<lparr>stdout := stdout w @ s @ [LF]\<rparr>"

definition message :: string where
  "message = ''The first column has been removed and the updated file is saved as '' @
     [CHR 0x27] @ output_file @ [CHR 0x27] @ ''.''"

text \<open>
  A run returns the exception that ended it, if any, and the world it leaves. The
  statements run in the order of the script; an exception ends the run where it is
  raised.
\<close>

definition main :: "'f platform \<Rightarrow> world \<Rightarrow> error option \<times> world" where
  "main lib w =
     (case pd_read_csv lib w input_file of
        Inl e \<Rightarrow> (Some e, w)
      | Inr df \<Rightarrow>
          (case df_to_csv lib (iloc_cols 1 df) output_file w of
             Inl e \<Rightarrow> (Some e, w)
           | Inr w' \<Rightarrow> (None, print message w')))"

text \<open>
  The same run, observed after every statement: the worlds left by the statements that
  completed, in the order of the script (the read, the slice, the write, the print).
\<close>

definition main_trace :: "'f platform \<Rightarrow> world \<Rightarrow> world list" where
  "main_trace lib w =
     (case pd_read_csv lib w input_file of
        Inl e \<Rightarrow> []
      | Inr df \<Rightarrow>
          [w, w] @
          (case df_to_csv lib (iloc_cols 1 df) output_file w of
             Inl e \<Rightarrow> []
           | Inr w' \<Rightarrow> [w', print message w']))"

subsection \<open>Valid input tables\<close>

text \<open>
  The text is a table with this header and these rows: every row has as many fields as
  the header, and the header fields are names, non-empty and pairwise distinct.
\<close>

definition regular :: "string \<Rightarrow> string list \<Rightarrow> string list list \<Rightarrow> bool" where
  "regular text header rows =
     (tokenize text = Tokens (header # rows)
      \<and> list_all (\<lambda>r. length r = length header) rows
      \<and> [] \<notin> set header \<and> distinct header)"

subsection \<open>Fields that pass through unchanged\<close>

text \<open>A field the writer does not quote.\<close>

definition plain :: "'f platform \<Rightarrow> string \<Rightarrow> bool" where
  "plain lib w = (\<not> list_ex (special lib) w)"

text \<open>
  An int64 in the form \<^verbatim>\<open>str\<close> gives it: digits without a leading zero (or the single
  digit zero), after a minus sign for a negative number.
\<close>

definition canonical_int :: "string \<Rightarrow> bool" where
  "canonical_int w =
     (let neg = (w \<noteq> [] \<and> hd w = CHR ''-'');
          ds = (if neg then tl w else w)
      in ds \<noteq> [] \<and> list_all isdigit_ascii ds \<and> (hd ds \<noteq> CHR ''0'' \<or> w = ''0'')
         \<and> (if neg then INT64_MIN \<le> - int (digits_val ds) else int (digits_val ds) \<le> INT64_MAX))"

text \<open>
  A column the reader keeps as strings (dtype \<^verbatim>\<open>object\<close>) and in which no field is read
  as a missing value.
\<close>

definition kept_as_text :: "'f platform \<Rightarrow> string list \<Rightarrow> bool" where
  "kept_as_text lib ws =
     (try_int64 ws = Not_this_dtype \<and> try_double lib ws = None
      \<and> (try_bool_flex ws :: 'f cell list option) = None
      \<and> list_all (\<lambda>w. \<not> is_na w) ws)"

definition verbatim :: "'f platform \<Rightarrow> string list \<Rightarrow> bool" where
  "verbatim lib ws = (list_all canonical_int ws \<or> kept_as_text lib ws)"

text \<open>The value the reader gives the field in row \<open>i\<close> and column \<open>j\<close> of the tokens.\<close>

definition value_at :: "'f platform \<Rightarrow> string list \<Rightarrow> string list list \<Rightarrow> nat \<Rightarrow> nat \<Rightarrow> 'f cell" where
  "value_at lib header rows i j = convert_column lib (length header) (column j rows) ! i"

subsection \<open>Source files written without quoting\<close>

text \<open>
  The text of a file with one line for each row: the fields of the row joined by
  commas, followed by the line terminator \<open>nl\<close>.
\<close>

definition csv_text :: "string \<Rightarrow> string list list \<Rightarrow> string" where
  "csv_text nl rows = concat (map (\<lambda>r. join_fields r @ nl) rows)"

text \<open>
  A field that stands for itself in such a line: it has no comma, no quote, no carriage
  return, no line feed and no NUL byte.
\<close>

definition unquoted_field :: "string \<Rightarrow> bool" where
  "unquoted_field f =
     list_all (\<lambda>c. c \<noteq> COMMA \<and> c \<noteq> QUOTE \<and> c \<noteq> CR \<and> c \<noteq> LF \<and> c \<noteq> NUL) f"

text \<open>The characters of which a line that the reader skips as blank consists.\<close>

definition blank :: "char \<Rightarrow> bool" where
  "blank c = (c = CHR '' '' \<or> c = TAB)"

subsection \<open>Concrete platforms and worlds\<close>

text \<open>
  An instance of the parameters for running the model on concrete inputs: the line
  terminator of Windows, no token read as a float.
\<close>

definition example_platform :: "unit platform" where
  "example_platform =
     \<lparr>str_to_double = (\<lambda>w. None), int_to_double = (\<lambda>i. ()), repr_double = (\<lambda>x. ''nan''),
      linesep = [CR, LF], convert_tokens_other = string_convert,
      read_csv_other = (\<lambda>text. Inl OtherError)\<rparr>"

definition empty_world :: world where
  "empty_world = \<lparr>files = Map.empty, writable = (\<lambda>p. True), stdout = []\<rparr>"

definition sample_text :: string where
  "sample_text = ''A,B'' @ [LF] @ ''1,2'' @ [LF]"

definition sample_world :: world where
  "sample_world =
     \<lparr>files = [input_file \<mapsto> sample_text], writable = (\<lambda>p. True), stdout = []\<rparr>"

text \<open>The same source file in a world in which no path can be opened for writing.\<close>

definition locked_world :: world where
  "locked_world =
     \<lparr>files = [input_file \<mapsto> sample_text], writable = (\<lambda>p. False), stdout = []\<rparr>"

definition sample_frame :: "'f frame" where
  "sample_frame = \<lparr>columns = [''A'', ''B''], body = [[IntC 1, IntC 2]]\<rparr>"

definition single_text :: string where
  "single_text = ''A'' @ [LF] @ ''1'' @ [LF] @ ''2'' @ [LF]"

definition single_world :: world where
  "single_world =
     \<lparr>files = [input_file \<mapsto> single_text], writable = (\<lambda>p. True), stdout = []\<rparr>"

definition abc_text :: string where
  "abc_text = ''A,B,C'' @ [LF] @ ''1,2,3'' @ [LF] @ ''4,5,6'' @ [LF]"

definition abc_world :: world where
  "abc_world = \<lparr>files = [input_file \<mapsto> abc_text], writable = (\<lambda>p. True), stdout = []\<rparr>"

definition abc_frame :: "'f frame" where
  "abc_frame = \<lparr>columns = [''A'', ''B'', ''C''],
     body = [[IntC 1, IntC 2, IntC 3], [IntC 4, IntC 5, IntC 6]]\<rparr>"

definition bc_text :: string where
  "bc_text = ''B,C'' @ [CR, LF] @ ''2,3'' @ [CR, LF] @ ''5,6'' @ [CR, LF]"

definition bc_world :: world where
  "bc_world = \<lparr>files = [input_file \<mapsto> bc_text], writable = (\<lambda>p. True), stdout = []\<rparr>"

definition c_text :: string where
  "c_text = ''C'' @ [CR, LF] @ ''3'' @ [CR, LF] @ ''6'' @ [CR, LF]"

definition zeros_text :: string where
  "zeros_text = ''A,B'' @ [LF] @ ''1,007'' @ [LF]"

definition zeros_world :: world where
  "zeros_world =
     \<lparr>files = [input_file \<mapsto> zeros_text], writable = (\<lambda>p. True), stdout = []\<rparr>"

definition spaced_text :: string where
  "spaced_text = ''x,y'' @ [LF] @ ''1, 2'' @ [LF]"

definition spaced_world :: world where
  "spaced_world =
     \<lparr>files = [input_file \<mapsto> spaced_text], writable = (\<lambda>p. True), stdout = []\<rparr>"

definition spaced_frame :: "'f frame" where
  "spaced_frame = \<lparr>columns = [''x'', ''y''], body = [[IntC 1, IntC 2]]\<rparr>"

definition names_text :: string where
  "names_text = ''id,name,qty'' @ [LF] @ ''1,ab,10'' @ [LF] @ ''2,cd,-3'' @ [LF]"

definition names_world :: world where
  "names_world =
     \<lparr>files = [input_file \<mapsto> names_text], writable = (\<lambda>p. True), stdout = []\<rparr>"

definition spaced_output :: string where
  "spaced_output = ''y'' @ [CR, LF] @ ''2'' @ [CR, LF]"

definition zeros_output :: string where
  "zeros_output = ''B'' @ [CR, LF] @ ''7'' @ [CR, LF]"

definition names_output :: string where
  "names_output = ''name,qty'' @ [CR, LF] @ ''ab,10'' @ [CR, LF] @ ''cd,-3'' @ [CR, LF]"

section \<open>Properties\<close>

subsection \<open>Evaluation of concrete runs\<close>

lemmas int_defs =
  is_na_def na_values_def str_to_int64_def isspace_ascii_def isdigit_ascii_def digits_val_def
  digit_val_def INT64_MAX_def INT64_MIN_def

lemmas char_defs = LF_def CR_def COMMA_def QUOTE_def TAB_def NUL_def

lemma ascii_valid: "list_all (\<lambda>c. of_char c < (128::nat)) cs \<Longrightarrow> valid_utf8 cs"
  by (induction cs) (simp_all add: valid_utf8.simps between_def)

lemma pd_read_csv_valid:
  "files w path = Some text \<Longrightarrow> valid_utf8 text \<Longrightarrow> pd_read_csv lib w path = read_csv lib text"
  by (simp add: pd_read_csv_def)

lemma pd_read_csv_loaded:
  "files w path = Some text \<Longrightarrow> pd_read_csv lib w path = Inr df \<Longrightarrow> read_csv lib text = Inr df"
  by (simp add: pd_read_csv_def split: if_splits)

lemma valid_texts:
  "valid_utf8 sample_text" "valid_utf8 single_text" "valid_utf8 abc_text" "valid_utf8 bc_text"
  "valid_utf8 zeros_text" "valid_utf8 spaced_text" "valid_utf8 names_text"
  by (rule ascii_valid, simp add: sample_text_def single_text_def abc_text_def bc_text_def
      zeros_text_def spaced_text_def names_text_def char_defs)+

lemma buffer_lines_loop_done:
  "0 < b \<Longrightarrow> heuristic \<le> buffer_lines_loop heuristic b * 2"
proof (induction heuristic b rule: buffer_lines_loop.induct)
  case (1 heuristic b)
  show ?case
  proof (cases "b * 2 < heuristic")
    case True
    with 1 show ?thesis by (subst buffer_lines_loop.simps) simp
  next
    case False
    then show ?thesis by (subst buffer_lines_loop.simps) simp
  qed
qed

lemma one_chunk: "n * 2 \<le> 2 ^ 20 div w \<Longrightarrow> \<not> buffer_lines w < n"
  using buffer_lines_loop_done [of 1 "2 ^ 20 div w"] by (simp add: buffer_lines_def)

lemma tokenize_sample: "tokenize sample_text = Tokens [[''A'', ''B''], [''1'', ''2'']]"
  by (simp add: sample_text_def tokenize_def skip_bom_def tokenize_bytes.simps char_defs)

lemma convert_1: "convert_tokens lib [''1''] = [IntC 1]"
  by (simp add: convert_tokens_def int_column_def int_defs)

lemma convert_2: "convert_tokens lib [''2''] = [IntC 2]"
  by (simp add: convert_tokens_def int_column_def int_defs)

lemma convert_column_one_chunk:
  "length ws * 2 \<le> 2 ^ 20 div w \<Longrightarrow>
   convert_column lib w ws = fit (length ws) (convert_tokens lib ws)"
  by (simp add: convert_column_def one_chunk)

lemma read_sample:
  "read_csv lib sample_text = Inr sample_frame"
proof -
  have "convert_column lib 2 [''1''] = [IntC 1]" "convert_column lib 2 [''2''] = [IntC 2]"
    by (simp_all add: convert_column_one_chunk convert_1 convert_2 fit_def)
  then have c: "convert_column lib (Suc (Suc 0)) [''1''] = [IntC 1]"
    "convert_column lib (Suc (Suc 0)) [''2''] = [IntC 2]"
    by (simp_all only: numeral_2_eq_2)
  show ?thesis
    by (simp add: read_csv_def tokenize_sample column_def rows_of_def c upt_rec sample_frame_def)
qed

lemma write_sample:
  "to_csv example_platform (iloc_cols 1 sample_frame) = ''B'' @ [CR, LF] @ ''2'' @ [CR, LF]"
  by (simp add: to_csv_def writerow_def join_append_def special_def render_def str_int_def
      str_nat.simps iloc_cols_def char_defs example_platform_def sample_frame_def)

lemma pd_read_sample: "pd_read_csv lib sample_world input_file = Inr sample_frame"
  by (simp add: pd_read_csv_def sample_world_def read_sample valid_texts)

lemma main_sample:
  "main example_platform sample_world =
     (None, print message
        (sample_world\<lparr>files := (files sample_world)
           (output_file \<mapsto> ''B'' @ [CR, LF] @ ''2'' @ [CR, LF])\<rparr>))"
  using read_sample [of example_platform] write_sample
  by (simp add: main_def pd_read_csv_def df_to_csv_def sample_world_def valid_texts)

lemma tokenize_single: "tokenize single_text = Tokens [[''A''], [''1''], [''2'']]"
  by (simp add: single_text_def tokenize_def skip_bom_def tokenize_bytes.simps char_defs)

subsection \<open>Tables\<close>

lemma wf_rows_of: "wf_frame \<lparr>columns = h, body = rows_of n (map f [0..<length h])\<rparr>"
  by (simp add: wf_frame_def rows_of_def list_all_iff)

lemma other_wf: "other lib text = Inr df \<Longrightarrow> wf_frame df"
  by (auto simp: other_def split: sum.splits if_splits)

lemma read_csv_wf: "read_csv lib text = Inr df \<Longrightarrow> wf_frame df"
  by (auto simp: read_csv_def wf_rows_of split: tokens.splits list.splits if_splits dest: other_wf)

lemma pd_read_csv_wf: "pd_read_csv lib w path = Inr df \<Longrightarrow> wf_frame df"
  by (auto simp: pd_read_csv_def split: option.splits if_splits dest: read_csv_wf)

lemma ncols_iloc: "ncols (iloc_cols k df) = ncols df - k"
  by (simp add: ncols_def iloc_cols_def)

lemma nrows_iloc: "nrows (iloc_cols k df) = nrows df"
  by (simp add: nrows_def iloc_cols_def)

lemma wf_iloc: "wf_frame df \<Longrightarrow> wf_frame (iloc_cols k df)"
  by (simp add: wf_frame_def iloc_cols_def list_all_iff)

lemma to_csv_records:
  "to_csv lib df = concat (map (writerow lib) (columns df # map (map (render lib)) (body df)))"
  by (simp add: to_csv_def)


subsection \<open>The run as a whole\<close>

lemma paths_differ: "input_file \<noteq> output_file"
  by (simp add: input_file_def output_file_def)

lemma message_one_line: "LF \<notin> set message"
  by (simp add: message_def output_file_def LF_def)

lemma message_names_output:
  "message = (''The first column has been removed and the updated file is saved as '' @ [CHR 0x27])
     @ output_file @ ([CHR 0x27] @ ''.'')"
  by (simp add: message_def)

text \<open>A run either raises and leaves the world as it was, or reads, writes and prints.\<close>

lemma main_cases:
  "main lib w = (e, w') \<Longrightarrow>
     (e \<noteq> None \<and> w' = w) \<or>
     (e = None \<and> (\<exists>df. pd_read_csv lib w input_file = Inr df \<and> writable w output_file
        \<and> w' = print message
             (w\<lparr>files := (files w)(output_file \<mapsto> to_csv lib (iloc_cols 1 df))\<rparr>)))"
  by (auto simp: main_def df_to_csv_def split: sum.splits if_splits)

lemma main_success:
  "pd_read_csv lib w input_file = Inr df \<Longrightarrow> writable w output_file \<Longrightarrow>
   main lib w = (None, print message
     (w\<lparr>files := (files w)(output_file \<mapsto> to_csv lib (iloc_cols 1 df))\<rparr>))"
  by (simp add: main_def df_to_csv_def)

text \<open>
  Claim C7. If no file exists at the source path, the run ends with
  \<open>FileNotFoundError\<close> and leaves the world exactly as it found it: no destination file
  is created, an existing one is not touched, nothing is printed.
\<close>

theorem C7_missing_source:
  assumes "files w input_file = None"
  shows "main lib w = (Some FileNotFoundError, w)"
  using assms by (simp add: main_def pd_read_csv_def)

theorem C7_missing_source_witness:
  "files empty_world input_file = None
   \<and> main example_platform empty_world = (Some FileNotFoundError, empty_world)
   \<and> files (snd (main example_platform empty_world)) output_file = None"
  using C7_missing_source [of empty_world example_platform]
  by (simp add: empty_world_def)

lemma main_trace_cases:
  "(\<exists>err. pd_read_csv lib w input_file = Inl err \<and> main lib w = (Some err, w)
        \<and> main_trace lib w = [])
   \<or> (\<exists>df. pd_read_csv lib w input_file = Inr df \<and> \<not> writable w output_file
        \<and> main lib w = (Some OSError, w) \<and> main_trace lib w = [w, w])
   \<or> (\<exists>df. pd_read_csv lib w input_file = Inr df \<and> writable w output_file
        \<and> main lib w = (None, print message
              (w\<lparr>files := (files w)(output_file \<mapsto> to_csv lib (iloc_cols 1 df))\<rparr>))
        \<and> main_trace lib w =
              [w, w, w\<lparr>files := (files w)(output_file \<mapsto> to_csv lib (iloc_cols 1 df))\<rparr>,
               print message
                 (w\<lparr>files := (files w)(output_file \<mapsto> to_csv lib (iloc_cols 1 df))\<rparr>)])"
  by (cases "pd_read_csv lib w input_file")
    (simp_all add: main_def main_trace_def df_to_csv_def)

lemma main_locked:
  "main example_platform locked_world = (Some OSError, locked_world)"
  by (simp add: main_def pd_read_csv_def df_to_csv_def locked_world_def read_sample valid_texts)

text \<open>
  Claim C8. A run prints nothing or exactly one line, the message followed by one line
  feed; the message has no line feed of its own and contains the destination path. A
  run that ends with an exception, because the read fails or because the destination
  cannot be written, prints nothing. The line is printed only after the destination
  file has been written: in every world of the run in which something has been printed
  (the worlds left by the statements of the script, of which the outcome is the last),
  the destination file holds the complete output; the write itself prints nothing and
  the print is the last statement.
\<close>

theorem C8_report:
  assumes "main lib w = (e, w')"
  shows "(stdout w' = stdout w \<or> stdout w' = stdout w @ message @ [LF])
       \<and> LF \<notin> set message
       \<and> (\<exists>a b. message = a @ output_file @ b)
       \<and> (e \<noteq> None \<longrightarrow> stdout w' = stdout w)
       \<and> (e = None \<longrightarrow>
            (\<exists>df w1. pd_read_csv lib w input_file = Inr df
               \<and> df_to_csv lib (iloc_cols 1 df) output_file w = Inr w1
               \<and> files w1 output_file = Some (to_csv lib (iloc_cols 1 df))
               \<and> stdout w1 = stdout w
               \<and> w' = print message w1
               \<and> stdout w' = stdout w @ message @ [LF]))
       \<and> w' = last (w # main_trace lib w)
       \<and> (\<forall>v \<in> set (w # main_trace lib w). stdout v \<noteq> stdout w \<longrightarrow>
            e = None \<and> v = w'
            \<and> (\<exists>df. pd_read_csv lib w input_file = Inr df
                  \<and> files v output_file = Some (to_csv lib (iloc_cols 1 df))))"
proof -
  have m: "\<exists>a b. message = a @ output_file @ b"
    using message_names_output by blast
  from main_trace_cases [of lib w] show ?thesis
  proof (elim disjE exE conjE)
    fix err
    assume run: "main lib w = (Some err, w)" and tr: "main_trace lib w = []"
    from assms run have "e = Some err" "w' = w"
      by simp_all
    with m message_one_line show ?thesis
      by (simp add: tr)
  next
    fix df
    assume run: "main lib w = (Some OSError, w)" and tr: "main_trace lib w = [w, w]"
    from assms run have "e = Some OSError" "w' = w"
      by simp_all
    with m message_one_line show ?thesis
      by (simp add: tr)
  next
    fix df
    let ?w1 = "w\<lparr>files := (files w)(output_file \<mapsto> to_csv lib (iloc_cols 1 df))\<rparr>"
    assume r: "pd_read_csv lib w input_file = Inr df" and wr: "writable w output_file"
      and run: "main lib w = (None, print message ?w1)"
      and tr: "main_trace lib w = [w, w, ?w1, print message ?w1]"
    from assms run have e: "e = None" and w': "w' = print message ?w1"
      by simp_all
    have "\<exists>df w1. pd_read_csv lib w input_file = Inr df
               \<and> df_to_csv lib (iloc_cols 1 df) output_file w = Inr w1
               \<and> files w1 output_file = Some (to_csv lib (iloc_cols 1 df))
               \<and> stdout w1 = stdout w
               \<and> w' = print message w1
               \<and> stdout w' = stdout w @ message @ [LF]"
      apply (rule exI [of _ df])
      apply (rule exI [of _ ?w1])
      using r wr w' by (simp add: df_to_csv_def print_def)
    moreover have "\<forall>v \<in> set (w # main_trace lib w). stdout v \<noteq> stdout w \<longrightarrow>
            e = None \<and> v = w'
            \<and> (\<exists>df. pd_read_csv lib w input_file = Inr df
                  \<and> files v output_file = Some (to_csv lib (iloc_cols 1 df)))"
      using r e w' by (auto simp: tr print_def)
    moreover have "w' = last (w # main_trace lib w)"
      using w' by (simp add: tr)
    moreover have "stdout w' = stdout w @ message @ [LF]"
      using w' by (simp add: print_def)
    ultimately show ?thesis
      using e m message_one_line by simp
  qed
qed

theorem C8_report_witness:
  "(\<exists>w'. main example_platform sample_world = (None, w')
      \<and> stdout w' = stdout sample_world @ message @ [LF]
      \<and> files w' output_file = Some (''B'' @ [CR, LF] @ ''2'' @ [CR, LF]))
   \<and> \<not> writable locked_world output_file
   \<and> fst (main example_platform locked_world) = Some OSError
   \<and> stdout (snd (main example_platform locked_world)) = stdout locked_world"
proof -
  let ?w1 = "print message (sample_world\<lparr>files := (files sample_world)
      (output_file \<mapsto> ''B'' @ [CR, LF] @ ''2'' @ [CR, LF])\<rparr>)"
  have "main example_platform locked_world
      = (fst (main example_platform locked_world), snd (main example_platform locked_world))"
    by simp
  from C8_report [OF this]
  have "fst (main example_platform locked_world) \<noteq> None \<longrightarrow>
      stdout (snd (main example_platform locked_world)) = stdout locked_world"
    by blast
  then have locked: "stdout (snd (main example_platform locked_world)) = stdout locked_world"
    by (simp add: main_locked)
  from C8_report [OF main_sample]
  have "None = (None :: error option) \<longrightarrow>
      (\<exists>df w1. pd_read_csv example_platform sample_world input_file = Inr df
         \<and> df_to_csv example_platform (iloc_cols 1 df) output_file sample_world = Inr w1
         \<and> files w1 output_file = Some (to_csv example_platform (iloc_cols 1 df))
         \<and> stdout w1 = stdout sample_world
         \<and> ?w1 = print message w1
         \<and> stdout ?w1 = stdout sample_world @ message @ [LF])"
    by blast
  then have printed: "stdout ?w1 = stdout sample_world @ message @ [LF]"
    by blast
  have "files ?w1 output_file = Some (''B'' @ [CR, LF] @ ''2'' @ [CR, LF])"
    by (simp add: print_def)
  with printed main_sample
  have "\<exists>w'. main example_platform sample_world = (None, w')
      \<and> stdout w' = stdout sample_world @ message @ [LF]
      \<and> files w' output_file = Some (''B'' @ [CR, LF] @ ''2'' @ [CR, LF])"
    by (intro exI [of _ ?w1]) simp
  moreover have "\<not> writable locked_world output_file"
    by (simp add: locked_world_def)
  moreover have "fst (main example_platform locked_world) = Some OSError"
    by (simp add: main_locked)
  ultimately show ?thesis
    using locked by blast
qed

text \<open>
  Claim C9. Whatever the outcome of a run, the file at the source path is what it was,
  and so is every file other than the destination; on a run without an exception the
  destination holds exactly the output, whatever it held before.
\<close>

theorem C9_source_read_only:
  assumes "main lib w = (e, w')"
  shows "files w' input_file = files w input_file
         \<and> (\<forall>p. p \<noteq> output_file \<longrightarrow> files w' p = files w p)
         \<and> (e = None \<longrightarrow> (\<exists>df. pd_read_csv lib w input_file = Inr df
               \<and> files w' output_file = Some (to_csv lib (iloc_cols 1 df))))"
  using main_cases [OF assms] paths_differ by (auto simp: print_def)

theorem C9_source_read_only_witness:
  "files (snd (main example_platform sample_world)) input_file
     = Some sample_text
   \<and> files (snd (main example_platform sample_world)) output_file
     = Some (''B'' @ [CR, LF] @ ''2'' @ [CR, LF])"
  using C9_source_read_only [OF main_sample] main_sample
  by (simp add: print_def sample_world_def paths_differ)

subsection \<open>The round trip of the specification\<close>

lemma tokenize_abc:
  assumes "nl = [LF] \<or> nl = [CR, LF]" and "fin = [] \<or> fin = nl"
  shows "tokenize (''A,B,C'' @ nl @ ''1,2,3'' @ nl @ ''4,5,6'' @ fin)
     = Tokens [[''A'', ''B'', ''C''], [''1'', ''2'', ''3''], [''4'', ''5'', ''6'']]"
  using assms
  by (elim disjE) (simp_all add: tokenize_def skip_bom_def tokenize_bytes.simps char_defs)

lemma valid_abc:
  assumes "nl = [LF] \<or> nl = [CR, LF]" and "fin = [] \<or> fin = nl"
  shows "valid_utf8 (''A,B,C'' @ nl @ ''1,2,3'' @ nl @ ''4,5,6'' @ fin)"
  using assms by (intro ascii_valid) (auto simp: char_defs)

lemma convert_abc:
  "convert_tokens lib [''1'', ''4''] = [IntC 1, IntC 4]"
  "convert_tokens lib [''2'', ''5''] = [IntC 2, IntC 5]"
  "convert_tokens lib [''3'', ''6''] = [IntC 3, IntC 6]"
  by (simp_all add: convert_tokens_def int_column_def int_defs)

lemma read_abc:
  assumes "tokenize text
     = Tokens [[''A'', ''B'', ''C''], [''1'', ''2'', ''3''], [''4'', ''5'', ''6'']]"
  shows "read_csv lib text = Inr abc_frame"
proof -
  have "convert_column lib 3 [''1'', ''4''] = [IntC 1, IntC 4]"
    "convert_column lib 3 [''2'', ''5''] = [IntC 2, IntC 5]"
    "convert_column lib 3 [''3'', ''6''] = [IntC 3, IntC 6]"
    by (simp_all add: convert_column_one_chunk convert_abc fit_def)
  then have c: "convert_column lib (Suc (Suc (Suc 0))) [''1'', ''4''] = [IntC 1, IntC 4]"
    "convert_column lib (Suc (Suc (Suc 0))) [''2'', ''5''] = [IntC 2, IntC 5]"
    "convert_column lib (Suc (Suc (Suc 0))) [''3'', ''6''] = [IntC 3, IntC 6]"
    by (simp_all only: numeral_3_eq_3)
  show ?thesis
    by (simp add: read_csv_def assms column_def rows_of_def c upt_rec abc_frame_def)
qed

lemma write_bc:
  assumes "linesep lib = [LF] \<or> linesep lib = [CR, LF]"
  shows "to_csv lib (iloc_cols 1 abc_frame)
     = ''B,C'' @ linesep lib @ ''2,3'' @ linesep lib @ ''5,6'' @ linesep lib"
  using assms
  by (elim disjE) (simp_all add: to_csv_def writerow_def join_append_def special_def render_def
      str_int_def str_nat.simps iloc_cols_def char_defs abc_frame_def)

text \<open>
  Claim C5. For the source file with the lines \<open>A,B,C\<close>, \<open>1,2,3\<close>, \<open>4,5,6\<close> (ended by
  line feeds or by carriage return and line feed, the last line with or without its
  terminator), the run writes the destination file with the lines \<open>B,C\<close>, \<open>2,3\<close>,
  \<open>5,6\<close>, each ended by the line terminator of the platform.
\<close>

theorem C5_round_trip:
  assumes "files w input_file = Some (''A,B,C'' @ nl @ ''1,2,3'' @ nl @ ''4,5,6'' @ fin)"
    and "nl = [LF] \<or> nl = [CR, LF]" and "fin = [] \<or> fin = nl"
    and "linesep lib = [LF] \<or> linesep lib = [CR, LF]"
    and "writable w output_file"
  shows "\<exists>w'. main lib w = (None, w')
         \<and> files w' output_file
             = Some (''B,C'' @ linesep lib @ ''2,3'' @ linesep lib @ ''5,6'' @ linesep lib)"
proof -
  have "pd_read_csv lib w input_file = Inr abc_frame"
    using read_abc [OF tokenize_abc [OF assms(2,3)]]
    by (simp only: pd_read_csv_valid [OF assms(1) valid_abc [OF assms(2,3)]])
  from main_success [OF this assms(5)] show ?thesis
    by (simp only: write_bc [OF assms(4)]) (simp add: print_def)
qed

theorem C5_round_trip_witness:
  "\<exists>w'. main example_platform abc_world = (None, w') \<and> files w' output_file = Some bc_text"
proof -
  have "linesep example_platform = [CR, LF]"
    by (simp add: example_platform_def)
  with C5_round_trip [of abc_world "[LF]" "[LF]" example_platform]
  show ?thesis
    by (simp add: abc_world_def abc_text_def bc_text_def)
qed

subsection \<open>Integers in the form the writer gives them\<close>

lemma char_by_code: "of_char c = (of_char d :: nat) \<Longrightarrow> c = d"
  by simp

lemma digit_cases:
  assumes "isdigit_ascii c"
  shows "c \<in> set ''0123456789''"
proof -
  define n :: nat where "n = of_char c"
  have "n \<in> {48, 49, 50, 51, 52, 53, 54, 55, 56, 57}"
    using assms unfolding isdigit_ascii_def n_def [symmetric] by simp arith
  then consider "n = 48" | "n = 49" | "n = 50" | "n = 51" | "n = 52" | "n = 53" | "n = 54"
    | "n = 55" | "n = 56" | "n = 57"
    by blast
  then show ?thesis
  proof cases
    case 1 then have "c = CHR ''0''" unfolding n_def by (intro char_by_code) simp
    then show ?thesis by simp
  next
    case 2 then have "c = CHR ''1''" unfolding n_def by (intro char_by_code) simp
    then show ?thesis by simp
  next
    case 3 then have "c = CHR ''2''" unfolding n_def by (intro char_by_code) simp
    then show ?thesis by simp
  next
    case 4 then have "c = CHR ''3''" unfolding n_def by (intro char_by_code) simp
    then show ?thesis by simp
  next
    case 5 then have "c = CHR ''4''" unfolding n_def by (intro char_by_code) simp
    then show ?thesis by simp
  next
    case 6 then have "c = CHR ''5''" unfolding n_def by (intro char_by_code) simp
    then show ?thesis by simp
  next
    case 7 then have "c = CHR ''6''" unfolding n_def by (intro char_by_code) simp
    then show ?thesis by simp
  next
    case 8 then have "c = CHR ''7''" unfolding n_def by (intro char_by_code) simp
    then show ?thesis by simp
  next
    case 9 then have "c = CHR ''8''" unfolding n_def by (intro char_by_code) simp
    then show ?thesis by simp
  next
    case 10 then have "c = CHR ''9''" unfolding n_def by (intro char_by_code) simp
    then show ?thesis by simp
  qed
qed

lemma digit_char:
  assumes "isdigit_ascii c"
  shows "''0123456789'' ! digit_val c = c" and "digit_val c < 10"
  using digit_cases [OF assms] by (auto simp: digit_val_def)

lemma digit_zero: "isdigit_ascii c \<Longrightarrow> (digit_val c = 0) = (c = CHR ''0'')"
  using digit_cases [of c] by (auto simp: digit_val_def)

lemma digits_val_snoc: "digits_val (ds @ [d]) = 10 * digits_val ds + digit_val d"
  by (simp add: digits_val_def)

lemma str_nat_step:
  "0 < n \<Longrightarrow> d < 10 \<Longrightarrow> str_nat (10 * n + d) = str_nat n @ [''0123456789'' ! d]"
  by (subst str_nat.simps) simp

lemma str_nat_digit: "d < 10 \<Longrightarrow> str_nat d = [''0123456789'' ! d]"
  by (subst str_nat.simps) simp

lemma digits_round_trip:
  assumes "list_all isdigit_ascii ds" and "ds \<noteq> []" and "hd ds \<noteq> CHR ''0''"
  shows "str_nat (digits_val ds) = ds \<and> 0 < digits_val ds"
  using assms
proof (induction ds rule: rev_induct)
  case Nil
  then show ?case by simp
next
  case (snoc d ds)
  have d: "isdigit_ascii d"
    using snoc.prems(1) by simp
  show ?case
  proof (cases "ds = []")
    case True
    with snoc.prems d show ?thesis
      using digit_char [OF d] digit_zero [OF d]
      by (simp add: digits_val_def str_nat_digit)
  next
    case False
    with snoc have ih: "str_nat (digits_val ds) = ds" "0 < digits_val ds"
      by simp_all
    show ?thesis
      using ih digit_char [OF d]
      by (simp add: digits_val_snoc str_nat_step)
  qed
qed

lemma digit_not_space: "isdigit_ascii c \<Longrightarrow> \<not> isspace_ascii c"
  by (auto simp: isdigit_ascii_def isspace_ascii_def)

lemma digit_not_sign: "isdigit_ascii c \<Longrightarrow> c \<noteq> CHR ''-'' \<and> c \<noteq> CHR ''+''"
  by (auto simp: isdigit_ascii_def)

lemma str_to_int64_digits:
  assumes "list_all isdigit_ascii ds" and "ds \<noteq> []" and "int (digits_val ds) \<le> INT64_MAX"
  shows "str_to_int64 ds = Int_ok (int (digits_val ds))"
proof -
  obtain c cs where ds: "ds = c # cs"
    using assms(2) by (cases ds) auto
  have c: "isdigit_ascii c"
    using assms(1) ds by simp
  have all: "takeWhile isdigit_ascii ds = ds" "dropWhile isdigit_ascii ds = []"
    using assms(1) by (simp_all add: list_all_iff)
  have "dropWhile isspace_ascii ds = ds"
    using digit_not_space [OF c] ds by simp
  then show ?thesis
    using assms(2,3) digit_not_sign [OF c] all
    by (simp add: str_to_int64_def Let_def ds)
qed

lemma str_to_int64_minus:
  assumes "list_all isdigit_ascii ds" and "ds \<noteq> []" and "INT64_MIN \<le> - int (digits_val ds)"
  shows "str_to_int64 (CHR ''-'' # ds) = Int_ok (- int (digits_val ds))"
proof -
  have all: "takeWhile isdigit_ascii ds = ds" "dropWhile isdigit_ascii ds = []"
    using assms(1) by (simp_all add: list_all_iff)
  have "\<not> isspace_ascii CHR ''-''"
    by (simp add: isspace_ascii_def)
  then show ?thesis
    using assms(2,3) by (simp add: str_to_int64_def Let_def all)
qed

lemma canonical_int_parse:
  assumes "canonical_int w"
  shows "\<exists>v. str_to_int64 w = Int_ok v \<and> str_int v = w"
proof (cases "w \<noteq> [] \<and> hd w = CHR ''-''")
  case True
  then obtain ds where w: "w = CHR ''-'' # ds"
    by (cases w) auto
  from assms have ds: "ds \<noteq> []" "list_all isdigit_ascii ds" "hd ds \<noteq> CHR ''0''"
    "INT64_MIN \<le> - int (digits_val ds)"
    by (auto simp: canonical_int_def w)
  from digits_round_trip [OF ds(2,1,3)] have "str_int (- int (digits_val ds)) = w"
    by (simp add: str_int_def w)
  with str_to_int64_minus [OF ds(2,1,4)] show ?thesis
    by (simp add: w)
next
  case False
  with assms have ds: "w \<noteq> []" "list_all isdigit_ascii w" "hd w \<noteq> CHR ''0'' \<or> w = ''0''"
    "int (digits_val w) \<le> INT64_MAX"
    by (auto simp: canonical_int_def Let_def)
  have "str_int (int (digits_val w)) = w"
  proof (cases "w = ''0''")
    case True
    then show ?thesis
      by (simp add: str_int_def digits_val_def digit_val_def str_nat.simps)
  next
    case False
    with ds(3) digits_round_trip [OF ds(2,1)] show ?thesis
      by (simp add: str_int_def)
  qed
  with str_to_int64_digits [OF ds(2,1,4)] show ?thesis
    by simp
qed

lemma canonical_int_not_na: "canonical_int w \<Longrightarrow> \<not> is_na w"
  by (auto simp: is_na_def na_values_def canonical_int_def isdigit_ascii_def)

subsection \<open>Columns that pass through unchanged\<close>

lemma try_int64_canonical:
  "list_all canonical_int ws \<Longrightarrow> \<exists>vs. try_int64 ws = Converted (map Some vs) \<and> map str_int vs = ws"
proof (induction ws)
  case Nil
  then show ?case by simp
next
  case (Cons w ws)
  then obtain vs where vs: "try_int64 ws = Converted (map Some vs)" "map str_int vs = ws"
    by auto
  from Cons.prems obtain v where v: "str_to_int64 w = Int_ok v" "str_int v = w"
    using canonical_int_parse [of w] by auto
  have "\<not> is_na w"
    using Cons.prems by (simp add: canonical_int_not_na)
  then show ?case
    by (intro exI [of _ "v # vs"]) (simp add: v vs)
qed

lemma convert_canonical:
  assumes "list_all canonical_int ws"
  shows "map (render lib) (convert_tokens lib ws) = ws"
proof -
  from try_int64_canonical [OF assms] obtain vs where
    vs: "try_int64 ws = Converted (map Some vs)" "map str_int vs = ws"
    by (elim exE conjE)
  have "convert_tokens lib ws = map IntC vs"
    by (auto simp: convert_tokens_def vs(1) int_column_def)
  then show ?thesis
    using vs(2) by (simp add: render_def comp_def)
qed

lemma convert_text:
  assumes "kept_as_text lib ws"
  shows "map (render lib) (convert_tokens lib ws) = ws"
proof -
  have "convert_tokens lib ws = string_convert ws"
    using assms by (simp add: kept_as_text_def convert_tokens_def)
  moreover have "map (render lib) (string_convert ws) = ws"
    using assms by (simp add: kept_as_text_def string_convert_def render_def list_all_iff map_idI)
  ultimately show ?thesis
    by simp
qed

lemma verbatim_render: "verbatim lib ws \<Longrightarrow> map (render lib) (convert_tokens lib ws) = ws"
  by (auto simp: verbatim_def convert_canonical convert_text)

lemma verbatim_nonempty: "verbatim lib ws \<Longrightarrow> [] \<notin> set ws"
  by (auto simp: verbatim_def kept_as_text_def list_all_iff is_na_def na_values_def
      canonical_int_def)

lemma fit_same_length: "length cs = n \<Longrightarrow> fit n cs = cs"
  by (simp add: fit_def)

lemma convert_column_verbatim:
  assumes "verbatim lib ws" and "\<not> buffer_lines c < length ws"
  shows "map (render lib) (convert_column lib c ws) = ws"
proof -
  have r: "map (render lib) (convert_tokens lib ws) = ws"
    using assms(1) by (rule verbatim_render)
  then have "length (convert_tokens lib ws) = length ws"
    by (metis length_map)
  then show ?thesis
    using assms(2) r by (simp add: convert_column_def fit_same_length)
qed

subsection \<open>The output for a regular source file\<close>

lemma read_csv_regular:
  assumes "tokenize text = Tokens (header # rows)"
    and "list_all (\<lambda>r. length r = length header) rows"
    and "[] \<notin> set header" and "distinct header"
  shows "read_csv lib text = Inr \<lparr>columns = header,
     body = rows_of (length rows)
       (map (\<lambda>j. convert_column lib (length header) (column j rows)) [0..<length header])\<rparr>"
  using assms by (simp add: read_csv_def)

lemma to_csv_regular:
  "to_csv lib (iloc_cols 1 \<lparr>columns = header,
     body = rows_of (length rows)
       (map (\<lambda>j. convert_column lib (length header) (column j rows)) [0..<length header])\<rparr>)
   = writerow lib (tl header)
     @ concat (map (\<lambda>i. writerow lib
         (map (\<lambda>j. render lib (value_at lib header rows i j)) [1..<length header]))
       [0..<length rows])"
  by (simp add: to_csv_def iloc_cols_def rows_of_def value_at_def drop_map drop_Suc comp_def
      drop_upt)

lemma main_regular:
  assumes "files w input_file = Some text"
    and "tokenize text = Tokens (header # rows)"
    and "list_all (\<lambda>r. length r = length header) rows"
    and "[] \<notin> set header" and "distinct header"
    and "writable w output_file"
    and "valid_utf8 text"
  shows "main lib w = (None, print message (w\<lparr>files := (files w)(output_file \<mapsto>
     writerow lib (tl header)
     @ concat (map (\<lambda>i. writerow lib
         (map (\<lambda>j. render lib (value_at lib header rows i j)) [1..<length header]))
       [0..<length rows]))\<rparr>))"
proof -
  have "pd_read_csv lib w input_file = Inr \<lparr>columns = header,
     body = rows_of (length rows)
       (map (\<lambda>j. convert_column lib (length header) (column j rows)) [0..<length header])\<rparr>"
    using read_csv_regular [OF assms(2-5)]
    by (simp only: pd_read_csv_valid [OF assms(1,7)])
  from main_success [OF this assms(6)] show ?thesis
    by (simp only: to_csv_regular)
qed

lemma regular_frame:
  assumes "files w input_file = Some text" and "regular text header rows"
    and "pd_read_csv lib w input_file = Inr df"
  shows "df = \<lparr>columns = header,
     body = rows_of (length rows)
       (map (\<lambda>j. convert_column lib (length header) (column j rows)) [0..<length header])\<rparr>"
proof -
  from assms(2) have "read_csv lib text = Inr \<lparr>columns = header,
     body = rows_of (length rows)
       (map (\<lambda>j. convert_column lib (length header) (column j rows)) [0..<length header])\<rparr>"
    by (intro read_csv_regular) (simp_all add: regular_def)
  with pd_read_csv_loaded [OF assms(1,3)] show ?thesis
    by simp
qed

lemma regular_values:
  assumes "files w input_file = Some text" and "regular text header rows"
    and "pd_read_csv lib w input_file = Inr df"
  shows "\<forall>i < length rows. \<forall>j < length header.
           body df ! i ! j = value_at lib header rows i j"
  by (simp add: regular_frame [OF assms] rows_of_def value_at_def)

lemma regular_loaded:
  assumes "files w input_file = Some text" and "regular text header rows"
    and "pd_read_csv lib w input_file = Inr df"
  shows "columns df = header" and "ncols df = length header" and "nrows df = length rows"
proof -
  from assms(2) have "read_csv lib text = Inr \<lparr>columns = header,
     body = rows_of (length rows)
       (map (\<lambda>j. convert_column lib (length header) (column j rows)) [0..<length header])\<rparr>"
    by (intro read_csv_regular) (simp_all add: regular_def)
  with pd_read_csv_loaded [OF assms(1,3)] have "df = \<lparr>columns = header,
     body = rows_of (length rows)
       (map (\<lambda>j. convert_column lib (length header) (column j rows)) [0..<length header])\<rparr>"
    by simp
  then show "columns df = header" and "ncols df = length header" and "nrows df = length rows"
    by (simp_all add: ncols_def nrows_def rows_of_def)
qed

lemma buffer_lines_loop_ge: "b \<le> buffer_lines_loop heuristic b"
proof (induction heuristic b rule: buffer_lines_loop.induct)
  case (1 heuristic b)
  show ?case
  proof (cases "0 < b \<and> b * 2 < heuristic")
    case True
    with 1 have "b * 2 \<le> buffer_lines_loop heuristic (b * 2)" by simp
    with True show ?thesis by (subst buffer_lines_loop.simps) simp
  next
    case False
    then show ?thesis by (subst buffer_lines_loop.simps) auto
  qed
qed

lemma convert_column_one_row:
  "convert_column lib w [x] = fit 1 (convert_tokens lib [x])"
  using buffer_lines_loop_ge [of 1 "2 ^ 20 div w"]
  by (simp add: convert_column_def buffer_lines_def)

lemma tokenize_spaced: "tokenize spaced_text = Tokens [[''x'', ''y''], [''1'', '' 2'']]"
  by (simp add: spaced_text_def tokenize_def skip_bom_def tokenize_bytes.simps char_defs)

lemma convert_spaced: "convert_tokens lib ['' 2''] = [IntC 2]"
  by (simp add: convert_tokens_def int_column_def int_defs)

lemma value_spaced: "value_at lib [''x'', ''y''] [[''1'', '' 2'']] 0 (Suc 0) = IntC 2"
  by (simp add: value_at_def column_def convert_column_one_row convert_spaced fit_def)

lemma read_spaced: "read_csv lib spaced_text = Inr spaced_frame"
proof -
  have "convert_column lib 2 [''1''] = [IntC 1]" "convert_column lib 2 ['' 2''] = [IntC 2]"
    by (simp_all add: convert_column_one_chunk convert_1 convert_spaced fit_def)
  then have c: "convert_column lib (Suc (Suc 0)) [''1''] = [IntC 1]"
    "convert_column lib (Suc (Suc 0)) ['' 2''] = [IntC 2]"
    by (simp_all only: numeral_2_eq_2)
  show ?thesis
    by (simp add: read_csv_def tokenize_spaced column_def rows_of_def c upt_rec spaced_frame_def)
qed

lemma pd_read_spaced: "pd_read_csv lib spaced_world input_file = Inr spaced_frame"
  by (simp add: pd_read_csv_def spaced_world_def read_spaced valid_texts)

lemma main_spaced:
  "main example_platform spaced_world = (None, print message
     (spaced_world\<lparr>files := (files spaced_world)
        (output_file \<mapsto> spaced_output)\<rparr>))"
proof -
  have "files spaced_world input_file = Some spaced_text" "writable spaced_world output_file"
    by (simp_all add: spaced_world_def)
  from main_regular [OF this(1) tokenize_spaced _ _ _ this(2) valid_texts(6), of example_platform]
  show ?thesis
    by (simp add: upt_rec value_spaced writerow_def join_append_def special_def render_def
        str_int_def str_nat.simps char_defs example_platform_def spaced_output_def)
qed

lemma tokenize_spaced_output:
  "tokenize spaced_output = Tokens [[''y''], [''2'']]"
  by (simp add: spaced_output_def tokenize_def skip_bom_def tokenize_bytes.simps char_defs)


subsection \<open>Shape, labels and order\<close>

text \<open>
  Claim C1. If the table loaded from the source has at least one column and \<open>N\<close> rows,
  the run succeeds and the table it writes has \<open>N\<close> rows and one column fewer; the
  destination file is the header record followed by \<open>N\<close> records, each with one field
  fewer than the loaded table has columns. For a source file that is a valid table, the
  loaded table has the columns of its header and the rows of the file.
\<close>

theorem C1_shape:
  assumes "pd_read_csv lib w input_file = Inr df" and "1 \<le> ncols df"
    and "writable w output_file"
  shows "(\<exists>w' records.
           main lib w = (None, w')
         \<and> files w' output_file = Some (to_csv lib (iloc_cols 1 df))
         \<and> nrows (iloc_cols 1 df) = nrows df
         \<and> ncols (iloc_cols 1 df) + 1 = ncols df
         \<and> to_csv lib (iloc_cols 1 df) = concat (map (writerow lib) records)
         \<and> length records = nrows df + 1
         \<and> list_all (\<lambda>r. length r + 1 = ncols df) records)
       \<and> (\<forall>text header rows. files w input_file = Some text \<longrightarrow> regular text header rows
            \<longrightarrow> ncols df = length header \<and> nrows df = length rows)"
proof (rule conjI)
  show "\<forall>text header rows. files w input_file = Some text \<longrightarrow> regular text header rows
      \<longrightarrow> ncols df = length header \<and> nrows df = length rows"
    using regular_loaded [OF _ _ assms(1)] by blast
next
  let ?out = "iloc_cols 1 df"
  let ?records = "columns ?out # map (map (render lib)) (body ?out)"
  have wf: "wf_frame ?out"
    using assms(1) by (intro wf_iloc pd_read_csv_wf)
  have n: "ncols ?out + 1 = ncols df"
    using assms(2) by (simp add: ncols_iloc)
  have "list_all (\<lambda>r. length r = ncols ?out) ?records"
    using wf by (simp add: wf_frame_def ncols_def list_all_iff)
  then have fields: "list_all (\<lambda>r. length r + 1 = ncols df) ?records"
    using n by (simp add: list_all_iff)
  have run: "main lib w = (None, print message
      (w\<lparr>files := (files w)(output_file \<mapsto> to_csv lib ?out)\<rparr>))"
    using assms(1,3) by (rule main_success)
  show "\<exists>w' records.
           main lib w = (None, w')
         \<and> files w' output_file = Some (to_csv lib (iloc_cols 1 df))
         \<and> nrows (iloc_cols 1 df) = nrows df
         \<and> ncols (iloc_cols 1 df) + 1 = ncols df
         \<and> to_csv lib (iloc_cols 1 df) = concat (map (writerow lib) records)
         \<and> length records = nrows df + 1
         \<and> list_all (\<lambda>r. length r + 1 = ncols df) records"
    apply (rule exI [of _ "print message (w\<lparr>files := (files w)(output_file \<mapsto> to_csv lib ?out)\<rparr>)"])
    apply (rule exI [of _ ?records])
    using run n fields by (simp add: print_def nrows_iloc to_csv_records nrows_def iloc_cols_def)
qed

theorem C1_shape_witness:
  "regular sample_text [''A'', ''B''] [[''1'', ''2'']]
   \<and> (\<exists>w'. main example_platform sample_world = (None, w')
     \<and> files w' output_file = Some (''B'' @ [CR, LF] @ ''2'' @ [CR, LF])
     \<and> nrows (iloc_cols 1 (sample_frame :: unit frame)) = 1
     \<and> ncols (iloc_cols 1 (sample_frame :: unit frame)) = 1)"
proof -
  have reg: "regular sample_text [''A'', ''B''] [[''1'', ''2'']]"
    by (simp add: regular_def tokenize_sample)
  have h: "1 \<le> ncols (sample_frame :: unit frame)" "writable sample_world output_file"
    by (simp_all add: ncols_def sample_frame_def sample_world_def)
  from C1_shape [OF pd_read_sample [of example_platform] h] obtain w' where
    "main example_platform sample_world = (None, w')"
    "files w' output_file = Some (to_csv example_platform (iloc_cols 1 sample_frame))"
    by blast
  then have "main example_platform sample_world = (None, w')
      \<and> files w' output_file = Some (''B'' @ [CR, LF] @ ''2'' @ [CR, LF])"
    by (simp only: write_sample)
  moreover have "nrows (iloc_cols 1 (sample_frame :: unit frame)) = 1"
    "ncols (iloc_cols 1 (sample_frame :: unit frame)) = 1"
    by (simp_all add: sample_frame_def ncols_def nrows_def iloc_cols_def)
  ultimately show ?thesis
    using reg by blast
qed

text \<open>
  Claim C2. If the table loaded from the source has at least one column, the labels of
  the table written are the labels of the loaded table without the one at index 0, in
  the same order and unchanged, and the destination file begins with the record of
  exactly these labels. For a source file that is a valid table, the labels of the
  loaded table are the fields of its header.
\<close>

theorem C2_labels:
  assumes "pd_read_csv lib w input_file = Inr df" and "1 \<le> ncols df"
    and "writable w output_file"
  shows "(\<exists>w' rest.
           main lib w = (None, w')
         \<and> columns (iloc_cols 1 df) = tl (columns df)
         \<and> columns df = hd (columns df) # columns (iloc_cols 1 df)
         \<and> (\<forall>j < ncols df - 1. columns (iloc_cols 1 df) ! j = columns df ! (j + 1))
         \<and> files w' output_file = Some (writerow lib (tl (columns df)) @ rest))
       \<and> (\<forall>text header rows. files w input_file = Some text \<longrightarrow> regular text header rows
            \<longrightarrow> columns df = header)"
proof (rule conjI)
  show "\<forall>text header rows. files w input_file = Some text \<longrightarrow> regular text header rows
      \<longrightarrow> columns df = header"
    using regular_loaded(1) [OF _ _ assms(1)] by blast
next
  let ?out = "iloc_cols 1 df"
  have ne: "columns df \<noteq> []"
    using assms(2) by (auto simp: ncols_def)
  have tl: "columns ?out = tl (columns df)"
    by (simp add: iloc_cols_def drop_Suc)
  have nth: "\<forall>j < ncols df - 1. columns ?out ! j = columns df ! (j + 1)"
    by (simp add: iloc_cols_def ncols_def)
  have run: "main lib w = (None, print message
      (w\<lparr>files := (files w)(output_file \<mapsto> to_csv lib ?out)\<rparr>))"
    using assms(1,3) by (rule main_success)
  have out: "to_csv lib ?out = writerow lib (tl (columns df))
      @ concat (map (writerow lib) (map (map (render lib)) (body ?out)))"
    by (simp add: to_csv_def iloc_cols_def drop_Suc)
  show "\<exists>w' rest.
           main lib w = (None, w')
         \<and> columns (iloc_cols 1 df) = tl (columns df)
         \<and> columns df = hd (columns df) # columns (iloc_cols 1 df)
         \<and> (\<forall>j < ncols df - 1. columns (iloc_cols 1 df) ! j = columns df ! (j + 1))
         \<and> files w' output_file = Some (writerow lib (tl (columns df)) @ rest)"
    apply (rule exI [of _ "print message (w\<lparr>files := (files w)(output_file \<mapsto> to_csv lib ?out)\<rparr>)"])
    apply (rule exI [of _ "concat (map (writerow lib) (map (map (render lib)) (body ?out)))"])
    using run ne tl nth out by (simp add: print_def)
qed

theorem C2_labels_witness:
  "regular sample_text [''A'', ''B''] [[''1'', ''2'']]
   \<and> columns (iloc_cols 1 (sample_frame :: unit frame)) = [''B'']
   \<and> (\<exists>w' rest. main example_platform sample_world = (None, w')
        \<and> files w' output_file = Some (writerow example_platform [''B''] @ rest))"
proof -
  have reg: "regular sample_text [''A'', ''B''] [[''1'', ''2'']]"
    by (simp add: regular_def tokenize_sample)
  have h: "1 \<le> ncols (sample_frame :: unit frame)" "writable sample_world output_file"
    by (simp_all add: ncols_def sample_frame_def sample_world_def)
  have "tl (columns (sample_frame :: unit frame)) = [''B'']"
    by (simp add: sample_frame_def)
  with C2_labels [OF pd_read_sample [of example_platform] h] reg show ?thesis
    by auto
qed

subsection \<open>No index column\<close>

text \<open>
  Claim C4, as stated, fails: the second field of the input row \<open>1, 2\<close> is a blank
  followed by \<open>2\<close>; the reader takes it as the integer 2, and the first field of the
  output row is \<open>2\<close> without the blank.
\<close>

theorem C4_first_field_counterexample:
  "tokenize spaced_text = Tokens [[''x'', ''y''], [''1'', '' 2'']]
   \<and> fst (main example_platform spaced_world) = None
   \<and> files (snd (main example_platform spaced_world)) output_file
       = Some spaced_output
   \<and> tokenize spaced_output = Tokens [[''y''], [''2'']]
   \<and> ''2'' \<noteq> '' 2''"
  by (simp add: tokenize_spaced main_spaced print_def tokenize_spaced_output)

lemma to_csv_iloc:
  "to_csv lib (iloc_cols (Suc 0) df)
   = writerow lib (tl (columns df))
     @ concat (map (\<lambda>r. writerow lib (map (render lib) (tl r))) (body df))"
  by (simp add: to_csv_def iloc_cols_def drop_Suc comp_def)

lemma second_value:
  assumes "2 \<le> length r"
  shows "hd (map f (tl r)) = f (r ! 1)"
proof -
  from assms obtain a b r' where "r = a # b # r'"
    by (cases r; cases "tl r") auto
  then show ?thesis
    by simp
qed

text \<open>
  Claim C4, amended. The destination file is the record of the labels of the loaded
  table after the first, followed for every row of the loaded table, in order, by the
  record of the values of that row after the first, each in the writer's text for it.
  No field is written before them: where the table has a second column, the first field
  of the record of a row is the writer's text of the value loaded for the second field
  of that row, never a sequence number. For a source file that is a valid table, the
  rows of the loaded table are the data rows of the file, and the value loaded for a
  field is the one the reader's type inference gives it, which need not have the text
  of the field.
\<close>

theorem C4_no_index_column:
  assumes "pd_read_csv lib w input_file = Inr df" and "writable w output_file"
  shows "(\<exists>w'. main lib w = (None, w')
          \<and> files w' output_file = Some
              (writerow lib (tl (columns df))
               @ concat (map (\<lambda>r. writerow lib (map (render lib) (tl r))) (body df))))
       \<and> (\<forall>i < nrows df. 2 \<le> ncols df \<longrightarrow>
            hd (map (render lib) (tl (body df ! i))) = render lib (body df ! i ! 1))
       \<and> (\<forall>text header rows. files w input_file = Some text \<longrightarrow> regular text header rows
            \<longrightarrow> columns df = header \<and> nrows df = length rows
              \<and> (\<forall>i < length rows. \<forall>j < length header.
                    body df ! i ! j = value_at lib header rows i j))"
proof (intro conjI)
  from main_success [OF assms]
  show "\<exists>w'. main lib w = (None, w')
          \<and> files w' output_file = Some
              (writerow lib (tl (columns df))
               @ concat (map (\<lambda>r. writerow lib (map (render lib) (tl r))) (body df)))"
    by (simp add: print_def to_csv_iloc)
next
  have "wf_frame df"
    using assms(1) by (rule pd_read_csv_wf)
  then have "\<forall>i < nrows df. length (body df ! i) = ncols df"
    by (simp add: wf_frame_def nrows_def ncols_def list_all_length)
  then show "\<forall>i < nrows df. 2 \<le> ncols df \<longrightarrow>
      hd (map (render lib) (tl (body df ! i))) = render lib (body df ! i ! 1)"
    by (simp add: second_value)
next
  show "\<forall>text header rows. files w input_file = Some text \<longrightarrow> regular text header rows
      \<longrightarrow> columns df = header \<and> nrows df = length rows
        \<and> (\<forall>i < length rows. \<forall>j < length header.
              body df ! i ! j = value_at lib header rows i j)"
    using regular_loaded(1,3) [OF _ _ assms(1)] regular_values [OF _ _ assms(1)] by blast
qed

theorem C4_no_index_column_witness:
  "regular spaced_text [''x'', ''y''] [[''1'', '' 2'']]
   \<and> value_at example_platform [''x'', ''y''] [[''1'', '' 2'']] 0 1 = IntC 2
   \<and> (\<exists>w'. main example_platform spaced_world = (None, w')
        \<and> files w' output_file = Some spaced_output)"
proof -
  have wr: "writable spaced_world output_file"
    by (simp add: spaced_world_def)
  have reg: "regular spaced_text [''x'', ''y''] [[''1'', '' 2'']]"
    by (simp add: regular_def tokenize_spaced)
  have out: "writerow example_platform (tl (columns (spaced_frame :: unit frame)))
      @ concat (map (\<lambda>r. writerow example_platform (map (render example_platform) (tl r)))
          (body (spaced_frame :: unit frame)))
      = spaced_output"
    by (simp add: spaced_frame_def writerow_def join_append_def special_def render_def
        str_int_def str_nat.simps char_defs example_platform_def spaced_output_def)
  from C4_no_index_column [OF pd_read_spaced wr, of example_platform]
  have "\<exists>w'. main example_platform spaced_world = (None, w')
      \<and> files w' output_file = Some spaced_output"
    by (simp only: out)
  with reg value_spaced [of example_platform] show ?thesis
    by simp
qed

subsection \<open>Fields byte for byte\<close>

lemma tl_as_map: "length r = c \<Longrightarrow> map (\<lambda>j. r ! j) [1..<c] = tl r"
  by (rule nth_equalityI) (simp_all add: nth_tl)

lemma join_append_plain: "plain lib s \<Longrightarrow> join_append lib s = s"
  by (simp add: plain_def join_append_def)

lemma writerow_plain:
  assumes "list_all (plain lib) fs" and "[] \<notin> set fs"
  shows "writerow lib fs = join_fields fs @ linesep lib"
proof -
  have "map (join_append lib) fs = fs"
    using assms(1) by (simp add: list_all_iff join_append_plain map_idI)
  moreover have "fs \<noteq> [[]]"
    using assms(2) by auto
  ultimately show ?thesis
    by (simp add: writerow_def)
qed

lemma rendered_row:
  assumes rect: "list_all (\<lambda>r. length r = length header) rows"
    and chunk: "\<not> buffer_lines (length header) < length rows"
    and cols: "list_all (\<lambda>j. verbatim lib (column j rows)) [1..<length header]"
    and i: "i < length rows"
  shows "map (\<lambda>j. render lib (value_at lib header rows i j)) [1..<length header] = tl (rows ! i)"
    and "[] \<notin> set (tl (rows ! i))"
proof -
  have len: "length (rows ! i) = length header"
    using rect i by (simp add: list_all_length)
  have cell: "render lib (value_at lib header rows i j) = rows ! i ! j \<and> rows ! i ! j \<noteq> []"
    if j: "j \<in> set [1..<length header]" for j
  proof -
    have v: "verbatim lib (column j rows)"
      using cols j by (simp add: list_all_iff)
    have "\<not> buffer_lines (length header) < length (column j rows)"
      using chunk by (simp add: column_def)
    from convert_column_verbatim [OF v this]
    have m: "map (render lib) (convert_column lib (length header) (column j rows)) = column j rows" .
    then have "length (convert_column lib (length header) (column j rows)) = length rows"
      by (metis length_map column_def)
    with i have "map (render lib) (convert_column lib (length header) (column j rows)) ! i
        = render lib (value_at lib header rows i j)"
      by (simp add: value_at_def)
    with m i have "render lib (value_at lib header rows i j) = rows ! i ! j"
      by (simp add: column_def)
    moreover have "rows ! i ! j \<in> set (column j rows)"
      using i by (auto simp: column_def)
    ultimately show ?thesis
      using verbatim_nonempty [OF v] by auto
  qed
  have a: "map (\<lambda>j. render lib (value_at lib header rows i j)) [1..<length header]
      = map (\<lambda>j. rows ! i ! j) [1..<length header]"
    using cell by (intro map_cong) auto
  have b: "map (\<lambda>j. rows ! i ! j) [1..<length header] = tl (rows ! i)"
    by (rule tl_as_map [OF len])
  from a b show "map (\<lambda>j. render lib (value_at lib header rows i j)) [1..<length header]
      = tl (rows ! i)"
    by (rule trans)
  have "[] \<notin> set (map (\<lambda>j. rows ! i ! j) [1..<length header])"
    using cell by (auto simp del: set_upt) metis
  then show "[] \<notin> set (tl (rows ! i))"
    unfolding b .
qed

lemma rendered_rows:
  assumes rect: "list_all (\<lambda>r. length r = length header) rows"
    and chunk: "\<not> buffer_lines (length header) < length rows"
    and cols: "list_all (\<lambda>j. verbatim lib (column j rows)) [1..<length header]"
    and plain: "list_all (\<lambda>r. list_all (plain lib) (tl r)) rows"
  shows "map (\<lambda>i. writerow lib
           (map (\<lambda>j. render lib (value_at lib header rows i j)) [1..<length header]))
         [0..<length rows]
       = map (\<lambda>r. join_fields (tl r) @ linesep lib) rows"
proof (rule nth_equalityI)
  show "length (map (\<lambda>i. writerow lib
           (map (\<lambda>j. render lib (value_at lib header rows i j)) [1..<length header]))
         [0..<length rows])
       = length (map (\<lambda>r. join_fields (tl r) @ linesep lib) rows)"
    by simp
next
  fix i
  assume "i < length (map (\<lambda>i. writerow lib
           (map (\<lambda>j. render lib (value_at lib header rows i j)) [1..<length header]))
         [0..<length rows])"
  then have i: "i < length rows"
    by simp
  have p: "list_all (plain lib) (tl (rows ! i))"
    using plain i by (simp add: list_all_length)
  from rendered_row [OF rect chunk cols i] writerow_plain [OF p]
  have "writerow lib (map (\<lambda>j. render lib (value_at lib header rows i j)) [1..<length header])
      = join_fields (tl (rows ! i)) @ linesep lib"
    by simp
  with i show "map (\<lambda>i. writerow lib
           (map (\<lambda>j. render lib (value_at lib header rows i j)) [1..<length header]))
         [0..<length rows] ! i
       = map (\<lambda>r. join_fields (tl r) @ linesep lib) rows ! i"
    by simp
qed


lemma tokenize_zeros: "tokenize zeros_text = Tokens [[''A'', ''B''], [''1'', ''007'']]"
  by (simp add: zeros_text_def tokenize_def skip_bom_def tokenize_bytes.simps char_defs)

lemma convert_zeros: "convert_tokens lib [''007''] = [IntC 7]"
  by (simp add: convert_tokens_def int_column_def int_defs)

lemma value_zeros: "value_at lib [''A'', ''B''] [[''1'', ''007'']] 0 (Suc 0) = IntC 7"
  by (simp add: value_at_def column_def convert_column_one_row convert_zeros fit_def)

lemma main_zeros:
  "main example_platform zeros_world = (None, print message
     (zeros_world\<lparr>files := (files zeros_world)(output_file \<mapsto> zeros_output)\<rparr>))"
proof -
  have "files zeros_world input_file = Some zeros_text" "writable zeros_world output_file"
    by (simp_all add: zeros_world_def)
  from main_regular [OF this(1) tokenize_zeros _ _ _ this(2) valid_texts(5), of example_platform]
  show ?thesis
    by (simp add: upt_rec value_zeros writerow_def join_append_def special_def render_def
        str_int_def str_nat.simps char_defs example_platform_def zeros_output_def)
qed

lemma tokenize_zeros_output: "tokenize zeros_output = Tokens [[''B''], [''7'']]"
  by (simp add: zeros_output_def tokenize_def skip_bom_def tokenize_bytes.simps char_defs)

text \<open>
  Claim C3, as stated, fails: the field \<open>007\<close> of the source is read as the integer 7
  and written as \<open>7\<close>.
\<close>

theorem C3_leading_zeros_counterexample:
  "tokenize zeros_text = Tokens [[''A'', ''B''], [''1'', ''007'']]
   \<and> fst (main example_platform zeros_world) = None
   \<and> files (snd (main example_platform zeros_world)) output_file = Some zeros_output
   \<and> tokenize zeros_output = Tokens [[''B''], [''7'']]
   \<and> ''7'' \<noteq> ''007''"
  by (simp add: tokenize_zeros main_zeros print_def tokenize_zeros_output)

lemma tokenize_names:
  "tokenize names_text
     = Tokens [[''id'', ''name'', ''qty''], [''1'', ''ab'', ''10''], [''2'', ''cd'', ''-3'']]"
  by (simp add: names_text_def tokenize_def skip_bom_def tokenize_bytes.simps char_defs)

lemma verbatim_names:
  "verbatim example_platform [''ab'', ''cd'']" "verbatim example_platform [''10'', ''-3'']"
proof -
  have "try_int64 [''ab'', ''cd''] = Not_this_dtype"
    by (simp add: int_defs)
  moreover have "try_double example_platform [''ab'', ''cd''] = None"
    by (simp add: example_platform_def is_na_def na_values_def)
  moreover have "(try_bool_flex [''ab'', ''cd''] :: unit cell list option) = None"
    by (simp add: to_boolean_def is_na_def na_values_def)
  ultimately show "verbatim example_platform [''ab'', ''cd'']"
    by (simp add: verbatim_def kept_as_text_def is_na_def na_values_def)
  show "verbatim example_platform [''10'', ''-3'']"
    by (simp add: verbatim_def canonical_int_def isdigit_ascii_def digits_val_def digit_val_def
        INT64_MAX_def INT64_MIN_def)
qed

subsection \<open>The tokenizer on lines without quoting\<close>

lemma in_field:
  "unquoted_field u \<Longrightarrow>
   tokenize_bytes IN_FIELD f fs ls (u @ rest) = tokenize_bytes IN_FIELD (f @ u) fs ls rest"
proof (induction u arbitrary: f)
  case Nil
  show ?case by simp
next
  case (Cons c u)
  from Cons.prems have c: "c \<noteq> COMMA" "c \<noteq> QUOTE" "c \<noteq> CR" "c \<noteq> LF" "c \<noteq> NUL"
    and u: "unquoted_field u"
    by (simp_all add: unquoted_field_def)
  have "tokenize_bytes IN_FIELD f fs ls ((c # u) @ rest)
      = tokenize_bytes IN_FIELD (f @ [c]) fs ls (u @ rest)"
    using c by (simp add: tokenize_bytes.simps(2))
  also have "\<dots> = tokenize_bytes IN_FIELD ((f @ [c]) @ u) fs ls rest"
    by (rule Cons.IH [OF u])
  finally show ?case by simp
qed

lemma comma_ends_field:
  "st = IN_FIELD \<or> st = WHITESPACE_LINE \<or> (st = START_FIELD \<or> st = START_RECORD) \<and> f = [] \<Longrightarrow>
   tokenize_bytes st f fs ls (COMMA # rest) = tokenize_bytes START_FIELD [] (fs @ [f]) ls rest"
  by (auto simp: tokenize_bytes.simps(2) char_defs)

lemma newline_ends_line:
  assumes "nl = [LF] \<or> nl = [CR, LF]" and "st = IN_FIELD \<or> st = START_FIELD"
  shows "tokenize_bytes st f fs ls (nl @ rest)
     = tokenize_bytes START_RECORD [] [] (ls @ [fs @ [f]]) rest"
  using assms by (auto simp: tokenize_bytes.simps(2) char_defs)

text \<open>A field after the first of its line.\<close>

lemma start_field:
  assumes "unquoted_field u"
  shows "tokenize_bytes START_FIELD [] fs ls (u @ rest)
     = tokenize_bytes (if u = [] then START_FIELD else IN_FIELD) u fs ls rest"
proof (cases u)
  case Nil
  then show ?thesis by simp
next
  case (Cons c u')
  from assms Cons have c: "c \<noteq> COMMA" "c \<noteq> QUOTE" "c \<noteq> CR" "c \<noteq> LF" "c \<noteq> NUL"
    and u': "unquoted_field u'"
    by (simp_all add: unquoted_field_def)
  have "tokenize_bytes START_FIELD [] fs ls ((c # u') @ rest)
      = tokenize_bytes IN_FIELD [c] fs ls (u' @ rest)"
    using c by (simp add: tokenize_bytes.simps(2))
  also have "\<dots> = tokenize_bytes IN_FIELD ([c] @ u') fs ls rest"
    by (rule in_field [OF u'])
  finally show ?thesis
    using Cons by simp
qed

lemma field_comma:
  assumes "unquoted_field u"
  shows "tokenize_bytes START_FIELD [] fs ls (u @ COMMA # rest)
     = tokenize_bytes START_FIELD [] (fs @ [u]) ls rest"
  by (simp add: start_field [OF assms] comma_ends_field)

lemma field_newline:
  assumes "unquoted_field u" and "nl = [LF] \<or> nl = [CR, LF]"
  shows "tokenize_bytes START_FIELD [] fs ls (u @ nl @ rest)
     = tokenize_bytes START_RECORD [] [] (ls @ [fs @ [u]]) rest"
  by (simp add: start_field [OF assms(1)] newline_ends_line [OF assms(2)])

lemma fields_newline:
  assumes "r \<noteq> []" and "list_all unquoted_field r" and "nl = [LF] \<or> nl = [CR, LF]"
  shows "tokenize_bytes START_FIELD [] fs ls (join_fields r @ nl @ rest)
     = tokenize_bytes START_RECORD [] [] (ls @ [fs @ r]) rest"
  using assms(1,2)
proof (induction r arbitrary: fs rule: join_fields.induct)
  case 1
  then show ?case by simp
next
  case (2 x)
  then show ?case
    by (simp add: field_newline [OF _ assms(3)])
next
  case (3 x y ys)
  from "3.prems" have x: "unquoted_field x" and r: "list_all unquoted_field (y # ys)"
    by simp_all
  have "tokenize_bytes START_FIELD [] fs ls (join_fields (x # y # ys) @ nl @ rest)
      = tokenize_bytes START_FIELD [] fs ls (x @ COMMA # (join_fields (y # ys) @ nl @ rest))"
    by simp
  also have "\<dots> = tokenize_bytes START_FIELD [] (fs @ [x]) ls (join_fields (y # ys) @ nl @ rest)"
    by (rule field_comma [OF x])
  also have "\<dots> = tokenize_bytes START_RECORD [] [] (ls @ [(fs @ [x]) @ (y # ys)]) rest"
    by (rule "3.IH" [OF _ r]) simp
  finally show ?case by simp
qed

text \<open>
  The first field of a line: the blanks at the start of a line are kept aside until the
  line turns out not to be blank.
\<close>

lemma whitespace_comma:
  "unquoted_field u \<Longrightarrow>
   tokenize_bytes WHITESPACE_LINE f [] ls (u @ COMMA # rest)
     = tokenize_bytes START_FIELD [] [f @ u] ls rest"
proof (induction u arbitrary: f)
  case Nil
  show ?case by (simp add: comma_ends_field)
next
  case (Cons c u)
  from Cons.prems have c: "c \<noteq> COMMA" "c \<noteq> QUOTE" "c \<noteq> CR" "c \<noteq> LF" "c \<noteq> NUL"
    and u: "unquoted_field u"
    by (simp_all add: unquoted_field_def)
  show ?case
  proof (cases "blank c")
    case True
    then have "tokenize_bytes WHITESPACE_LINE f [] ls ((c # u) @ COMMA # rest)
        = tokenize_bytes WHITESPACE_LINE (f @ [c]) [] ls (u @ COMMA # rest)"
      using c by (simp add: tokenize_bytes.simps(2) blank_def)
    also have "\<dots> = tokenize_bytes START_FIELD [] [(f @ [c]) @ u] ls rest"
      by (rule Cons.IH [OF u])
    finally show ?thesis by simp
  next
    case False
    then have "tokenize_bytes WHITESPACE_LINE f [] ls ((c # u) @ COMMA # rest)
        = tokenize_bytes IN_FIELD (f @ [c]) [] ls (u @ COMMA # rest)"
      using c by (simp add: tokenize_bytes.simps(2) blank_def)
    also have "\<dots> = tokenize_bytes START_FIELD [] [(f @ [c]) @ u] ls rest"
      by (simp add: in_field [OF u] comma_ends_field)
    finally show ?thesis by simp
  qed
qed

lemma whitespace_newline:
  assumes "nl = [LF] \<or> nl = [CR, LF]"
  shows "unquoted_field u \<Longrightarrow> \<not> list_all blank u \<Longrightarrow>
   tokenize_bytes WHITESPACE_LINE f [] ls (u @ nl @ rest)
     = tokenize_bytes START_RECORD [] [] (ls @ [[f @ u]]) rest"
proof (induction u arbitrary: f)
  case Nil
  then show ?case by simp
next
  case (Cons c u)
  from Cons.prems have c: "c \<noteq> COMMA" "c \<noteq> QUOTE" "c \<noteq> CR" "c \<noteq> LF" "c \<noteq> NUL"
    and u: "unquoted_field u"
    by (simp_all add: unquoted_field_def)
  show ?case
  proof (cases "blank c")
    case True
    with Cons.prems have nb: "\<not> list_all blank u"
      by simp
    from True have "tokenize_bytes WHITESPACE_LINE f [] ls ((c # u) @ nl @ rest)
        = tokenize_bytes WHITESPACE_LINE (f @ [c]) [] ls (u @ nl @ rest)"
      using c by (simp add: tokenize_bytes.simps(2) blank_def)
    also have "\<dots> = tokenize_bytes START_RECORD [] [] (ls @ [[(f @ [c]) @ u]]) rest"
      by (rule Cons.IH [OF u nb])
    finally show ?thesis by simp
  next
    case False
    then have "tokenize_bytes WHITESPACE_LINE f [] ls ((c # u) @ nl @ rest)
        = tokenize_bytes IN_FIELD (f @ [c]) [] ls (u @ nl @ rest)"
      using c by (simp add: tokenize_bytes.simps(2) blank_def)
    also have "\<dots> = tokenize_bytes START_RECORD [] [] (ls @ [[(f @ [c]) @ u]]) rest"
      by (simp add: in_field [OF u] newline_ends_line [OF assms])
    finally show ?thesis by simp
  qed
qed

lemma first_field:
  assumes "unquoted_field (c # u)"
  shows "tokenize_bytes START_RECORD [] [] ls (c # u @ rest)
     = (if blank c then tokenize_bytes WHITESPACE_LINE [c] [] ls (u @ rest)
        else tokenize_bytes IN_FIELD (c # u) [] ls rest)"
proof -
  from assms have c: "c \<noteq> COMMA" "c \<noteq> QUOTE" "c \<noteq> CR" "c \<noteq> LF" "c \<noteq> NUL"
    and u: "unquoted_field u"
    by (simp_all add: unquoted_field_def)
  show ?thesis
  proof (cases "blank c")
    case True
    then show ?thesis
      using c by (simp add: tokenize_bytes.simps(2) blank_def)
  next
    case False
    then have "tokenize_bytes START_RECORD [] [] ls ((c # u) @ rest)
        = tokenize_bytes IN_FIELD [c] [] ls (u @ rest)"
      using c by (simp add: tokenize_bytes.simps(2) blank_def)
    also have "\<dots> = tokenize_bytes IN_FIELD ([c] @ u) [] ls rest"
      by (rule in_field [OF u])
    finally show ?thesis
      using False by simp
  qed
qed

lemma first_field_comma:
  assumes "unquoted_field u"
  shows "tokenize_bytes START_RECORD [] [] ls (u @ COMMA # rest)
     = tokenize_bytes START_FIELD [] [u] ls rest"
proof (cases u)
  case Nil
  then show ?thesis by (simp add: comma_ends_field)
next
  case (Cons c u')
  from assms Cons have u': "unquoted_field u'"
    by (simp add: unquoted_field_def)
  from assms Cons show ?thesis
    by (simp add: first_field whitespace_comma [OF u'] comma_ends_field)
qed

lemma first_field_newline:
  assumes "unquoted_field u" and "\<not> list_all blank u" and "nl = [LF] \<or> nl = [CR, LF]"
  shows "tokenize_bytes START_RECORD [] [] ls (u @ nl @ rest)
     = tokenize_bytes START_RECORD [] [] (ls @ [[u]]) rest"
proof (cases u)
  case Nil
  with assms(2) show ?thesis by simp
next
  case (Cons c u')
  from assms(1) Cons have u': "unquoted_field u'"
    by (simp add: unquoted_field_def)
  show ?thesis
  proof (cases "blank c")
    case True
    with assms(2) Cons have "\<not> list_all blank u'"
      by simp
    from whitespace_newline [OF assms(3) u' this] assms(1) Cons True show ?thesis
      by (simp add: first_field)
  next
    case False
    with assms(1) Cons show ?thesis
      by (simp add: first_field newline_ends_line [OF assms(3)])
  qed
qed

lemma line:
  assumes "list_all unquoted_field r" and "\<not> list_all blank (join_fields r)"
    and "nl = [LF] \<or> nl = [CR, LF]"
  shows "tokenize_bytes START_RECORD [] [] ls (join_fields r @ nl @ rest)
     = tokenize_bytes START_RECORD [] [] (ls @ [r]) rest"
proof (cases r rule: join_fields.cases)
  case 1
  with assms(2) show ?thesis by simp
next
  case (2 x)
  with assms show ?thesis
    by (simp add: first_field_newline)
next
  case (3 x y ys)
  with assms(1) have x: "unquoted_field x" and r: "list_all unquoted_field (y # ys)"
    by simp_all
  have "tokenize_bytes START_RECORD [] [] ls (join_fields (x # y # ys) @ nl @ rest)
      = tokenize_bytes START_RECORD [] [] ls (x @ COMMA # (join_fields (y # ys) @ nl @ rest))"
    by simp
  also have "\<dots> = tokenize_bytes START_FIELD [] [x] ls (join_fields (y # ys) @ nl @ rest)"
    by (rule first_field_comma [OF x])
  also have "\<dots> = tokenize_bytes START_RECORD [] [] (ls @ [[x] @ (y # ys)]) rest"
    by (rule fields_newline [OF _ r assms(3)]) simp
  finally show ?thesis
    using 3 by simp
qed

lemma lines:
  assumes "nl = [LF] \<or> nl = [CR, LF]"
  shows "list_all (\<lambda>r. list_all unquoted_field r \<and> \<not> list_all blank (join_fields r)) rs \<Longrightarrow>
   tokenize_bytes START_RECORD [] [] ls (csv_text nl rs) = Tokens (ls @ rs)"
proof (induction rs arbitrary: ls)
  case Nil
  show ?case by (simp add: csv_text_def tokenize_bytes.simps(1))
next
  case (Cons r rs)
  from Cons.prems have r: "list_all unquoted_field r" "\<not> list_all blank (join_fields r)"
    and rs: "list_all (\<lambda>r. list_all unquoted_field r \<and> \<not> list_all blank (join_fields r)) rs"
    by simp_all
  have "tokenize_bytes START_RECORD [] [] ls (csv_text nl (r # rs))
      = tokenize_bytes START_RECORD [] [] ls (join_fields r @ nl @ csv_text nl rs)"
    by (simp add: csv_text_def)
  also have "\<dots> = tokenize_bytes START_RECORD [] [] (ls @ [r]) (csv_text nl rs)"
    by (rule line [OF r assms])
  also have "\<dots> = Tokens ((ls @ [r]) @ rs)"
    by (rule Cons.IH [OF rs])
  finally show ?case by simp
qed

lemma tokenize_csv_text:
  assumes "nl = [LF] \<or> nl = [CR, LF]"
    and "list_all (\<lambda>r. list_all unquoted_field r \<and> \<not> list_all blank (join_fields r)) rs"
    and "take 3 (csv_text nl rs) \<noteq> [CHR 0xEF, CHR 0xBB, CHR 0xBF]"
  shows "tokenize (csv_text nl rs) = Tokens rs"
  using lines [OF assms(1,2), of "[]"] assms(3) by (simp add: tokenize_def skip_bom_def)
lemma set_tl_subset: "x \<in> set (tl xs) \<Longrightarrow> x \<in> set xs"
  by (cases xs) auto

lemma unquoted_plain:
  assumes "linesep lib = [LF] \<or> linesep lib = [CR, LF]" and "unquoted_field u"
  shows "plain lib u"
  using assms by (auto simp: plain_def special_def unquoted_field_def list_ex_iff list_all_iff)

text \<open>
  Claim C3, amended. Take a source file written without quoting: one line for the
  header and one for each data row, each line the fields of the row joined by commas
  and ended by a line feed or by carriage return and line feed, no field with a comma,
  a quote, a carriage return, a line feed or a NUL byte in it, no line blank, the text
  valid UTF-8 without a byte order mark. Let it be a valid table that the reader reads
  in one chunk, in which every column after the first is either kept as text by the
  reader (no field of it read as a missing value) or holds only integers in the form
  \<^verbatim>\<open>str\<close> gives them. Then the run succeeds, and the destination file has one line for
  every line of the source: the same fields without the first, joined by commas, byte
  for byte, ended by the line terminator of the platform.
\<close>

theorem C3_fields_unchanged:
  assumes "files w input_file = Some (csv_text nl (header # rows))"
    and "nl = [LF] \<or> nl = [CR, LF]"
    and "valid_utf8 (csv_text nl (header # rows))"
    and "take 3 (csv_text nl (header # rows)) \<noteq> [CHR 0xEF, CHR 0xBB, CHR 0xBF]"
    and "list_all (\<lambda>r. list_all unquoted_field r \<and> \<not> list_all blank (join_fields r))
           (header # rows)"
    and "list_all (\<lambda>r. length r = length header) rows"
    and "[] \<notin> set header" and "distinct header"
    and "\<not> buffer_lines (length header) < length rows"
    and "list_all (\<lambda>j. verbatim lib (column j rows)) [1..<length header]"
    and "linesep lib = [LF] \<or> linesep lib = [CR, LF]"
    and "writable w output_file"
  shows "\<exists>w'. main lib w = (None, w')
     \<and> files w' output_file = Some (csv_text (linesep lib) (map tl (header # rows)))"
proof -
  have tok: "tokenize (csv_text nl (header # rows)) = Tokens (header # rows)"
    using assms(2,5,4) by (rule tokenize_csv_text)
  have plain: "list_all (\<lambda>r. list_all (plain lib) (tl r)) (header # rows)"
    using assms(5) unquoted_plain [OF assms(11)]
    by (auto simp: list_all_iff dest: set_tl_subset)
  have h: "writerow lib (tl header) = join_fields (tl header) @ linesep lib"
  proof (rule writerow_plain)
    show "list_all (plain lib) (tl header)"
      using plain by simp
    show "[] \<notin> set (tl header)"
      using assms(7) by (cases header) auto
  qed
  have r: "map (\<lambda>i. writerow lib
           (map (\<lambda>j. render lib (value_at lib header rows i j)) [1..<length header]))
         [0..<length rows]
       = map (\<lambda>r. join_fields (tl r) @ linesep lib) rows"
    using plain by (intro rendered_rows [OF assms(6,9,10)]) simp
  from main_regular [OF assms(1) tok assms(6,7,8,12,3), of lib] show ?thesis
    unfolding h r by (simp add: print_def csv_text_def comp_def)
qed

theorem C3_fields_unchanged_witness:
  "names_text = csv_text [LF] [[''id'', ''name'', ''qty''], [''1'', ''ab'', ''10''], [''2'', ''cd'', ''-3'']]
   \<and> names_output
       = csv_text [CR, LF] [[''name'', ''qty''], [''ab'', ''10''], [''cd'', ''-3'']]
   \<and> (\<exists>w'. main example_platform names_world = (None, w')
        \<and> files w' output_file = Some names_output)"
proof -
  let ?header = "[''id'', ''name'', ''qty'']"
  let ?rows = "[[''1'', ''ab'', ''10''], [''2'', ''cd'', ''-3'']]"
  have src: "names_text = csv_text [LF] (?header # ?rows)"
    by (simp add: names_text_def csv_text_def char_defs)
  have out: "names_output = csv_text [CR, LF] (map tl (?header # ?rows))"
    by (simp add: names_output_def csv_text_def char_defs)
  have sep: "linesep example_platform = [CR, LF]"
    by (simp add: example_platform_def)
  have f: "files names_world input_file = Some (csv_text [LF] (?header # ?rows))"
    and wr: "writable names_world output_file"
    by (simp_all add: names_world_def src [symmetric])
  have valid: "valid_utf8 (csv_text [LF] (?header # ?rows))"
    using valid_texts(7) by (simp only: src)
  have bom: "take 3 (csv_text [LF] (?header # ?rows)) \<noteq> [CHR 0xEF, CHR 0xBB, CHR 0xBF]"
    by (simp add: csv_text_def)
  have fields: "list_all (\<lambda>r. list_all unquoted_field r \<and> \<not> list_all blank (join_fields r))
      (?header # ?rows)"
    by (simp add: unquoted_field_def blank_def char_defs)
  have rect: "list_all (\<lambda>r. length r = length ?header) ?rows"
    by simp
  have "\<not> buffer_lines 3 < 2"
    by (rule one_chunk) simp
  then have chunk: "\<not> buffer_lines (length ?header) < length ?rows"
    by (simp add: numeral_3_eq_3 numeral_2_eq_2)
  have cols: "list_all (\<lambda>j. verbatim example_platform (column j ?rows)) [1..<length ?header]"
    by (simp add: upt_rec column_def verbatim_names)
  from C3_fields_unchanged [OF f _ valid bom fields rect _ _ chunk cols _ wr]
  have "\<exists>w'. main example_platform names_world = (None, w')
      \<and> files w' output_file = Some (csv_text [CR, LF] (map tl (?header # ?rows)))"
    by (simp add: sep)
  then have "\<exists>w'. main example_platform names_world = (None, w')
      \<and> files w' output_file = Some names_output"
    by (simp only: out)
  with src out show ?thesis
    by simp
qed

subsection \<open>Removal by position\<close>

lemma main_abc:
  "main example_platform abc_world = (None, print message
     (abc_world\<lparr>files := (files abc_world)(output_file \<mapsto> bc_text)\<rparr>))"
proof -
  have "tokenize abc_text
      = Tokens [[''A'', ''B'', ''C''], [''1'', ''2'', ''3''], [''4'', ''5'', ''6'']]"
    unfolding abc_text_def by (rule tokenize_abc) simp_all
  then have "pd_read_csv example_platform abc_world input_file = Inr abc_frame"
    by (simp add: pd_read_csv_def abc_world_def read_abc valid_texts)
  moreover have "writable abc_world output_file"
    by (simp add: abc_world_def)
  moreover have "to_csv example_platform (iloc_cols 1 abc_frame) = bc_text"
    using write_bc [of example_platform] by (simp add: example_platform_def bc_text_def)
  ultimately show ?thesis
    using main_success [of example_platform abc_world abc_frame] by simp
qed

lemma tokenize_bc: "tokenize bc_text = Tokens [[''B'', ''C''], [''2'', ''3''], [''5'', ''6'']]"
  by (simp add: bc_text_def tokenize_def skip_bom_def tokenize_bytes.simps char_defs)

lemma read_bc:
  "read_csv lib bc_text
     = Inr \<lparr>columns = [''B'', ''C''], body = [[IntC 2, IntC 3], [IntC 5, IntC 6]]\<rparr>"
proof -
  have "convert_column lib 2 [''2'', ''5''] = [IntC 2, IntC 5]"
    "convert_column lib 2 [''3'', ''6''] = [IntC 3, IntC 6]"
    by (simp_all add: convert_column_one_chunk convert_abc fit_def)
  then have c: "convert_column lib (Suc (Suc 0)) [''2'', ''5''] = [IntC 2, IntC 5]"
    "convert_column lib (Suc (Suc 0)) [''3'', ''6''] = [IntC 3, IntC 6]"
    by (simp_all only: numeral_2_eq_2)
  show ?thesis
    by (simp add: read_csv_def tokenize_bc column_def rows_of_def c upt_rec)
qed

lemma main_bc:
  "main example_platform bc_world = (None, print message
     (bc_world\<lparr>files := (files bc_world)(output_file \<mapsto> c_text)\<rparr>))"
proof -
  let ?df = "\<lparr>columns = [''B'', ''C''], body = [[IntC 2, IntC 3], [IntC 5, IntC 6]]\<rparr> :: unit frame"
  have "pd_read_csv example_platform bc_world input_file = Inr ?df"
    by (simp add: pd_read_csv_def bc_world_def read_bc valid_texts)
  moreover have "writable bc_world output_file"
    by (simp add: bc_world_def)
  moreover have "to_csv example_platform (iloc_cols 1 ?df) = c_text"
    by (simp add: to_csv_def writerow_def join_append_def special_def render_def str_int_def
        str_nat.simps iloc_cols_def char_defs example_platform_def c_text_def)
  ultimately show ?thesis
    using main_success [of example_platform bc_world ?df] by simp
qed

text \<open>
  Claim C6. The transform goes by position. On a table with at least two columns, the
  first application removes the column at index 0 and the second application removes
  the column that was at index 1 of the original table (the new index 0), whatever the
  labels are: two applications leave the original columns from index 2 on.
\<close>

theorem C6_positional:
  assumes "2 \<le> ncols df"
  shows "columns df = columns df ! 0 # columns (iloc_cols 1 df)
       \<and> columns (iloc_cols 1 df) = columns df ! 1 # columns (iloc_cols 1 (iloc_cols 1 df))
       \<and> columns (iloc_cols 1 (iloc_cols 1 df)) = drop 2 (columns df)
       \<and> body (iloc_cols 1 (iloc_cols 1 df)) = map (drop 2) (body df)
       \<and> ncols (iloc_cols 1 (iloc_cols 1 df)) + 2 = ncols df"
proof -
  obtain a b cs where c: "columns df = a # b # cs"
    using assms by (cases "columns df"; cases "tl (columns df)") (auto simp: ncols_def)
  show ?thesis
    by (simp add: c iloc_cols_def ncols_def numeral_2_eq_2)
qed

text \<open>
  The same on files: the script run on the table \<open>A,B,C\<close> writes the table \<open>B,C\<close>, and
  run on that output as its source it writes the table \<open>C\<close>.
\<close>

theorem C6_positional_witness:
  "columns (iloc_cols 1 (abc_frame :: unit frame)) = [''B'', ''C'']
   \<and> columns (iloc_cols 1 (iloc_cols 1 (abc_frame :: unit frame))) = [''C'']
   \<and> body (iloc_cols 1 (iloc_cols 1 (abc_frame :: unit frame))) = [[IntC 3], [IntC 6]]
   \<and> files (snd (main example_platform abc_world)) output_file = Some bc_text
   \<and> files (snd (main example_platform bc_world)) output_file = Some c_text"
  using C6_positional [of "abc_frame :: unit frame"]
  by (simp add: abc_frame_def ncols_def iloc_cols_def main_abc main_bc print_def)

subsection \<open>A source with a single column\<close>

lemma no_columns_output:
  assumes "wf_frame df" and "ncols df = 1"
  shows "to_csv lib (iloc_cols 1 df) = concat (replicate (nrows df + 1) (linesep lib))"
proof -
  have rows: "map (drop 1) (body df) = replicate (nrows df) []"
    using assms
    by (auto simp: wf_frame_def ncols_def nrows_def list_all_iff map_replicate_const [symmetric]
        intro!: map_cong)
  have "to_csv lib (iloc_cols 1 df) = concat (map (writerow lib) ([] # replicate (nrows df) []))"
    using assms(2) rows by (simp add: to_csv_def iloc_cols_def ncols_def)
  also have "\<dots> = concat (replicate (nrows df + 1) (linesep lib))"
    by (simp add: writerow_def)
  finally show ?thesis .
qed

text \<open>
  Claim C10. If the table loaded from the source has exactly one column, the run ends
  without an exception: the table written has no columns and the rows of the loaded
  table, and the destination file is one empty line for the header followed by one
  empty line for each row. For a source file that is a valid table, the loaded table
  has one column exactly if the header has one name, and its rows are the data rows of
  the file.
\<close>

theorem C10_single_column:
  assumes "pd_read_csv lib w input_file = Inr df" and "ncols df = 1"
    and "writable w output_file"
  shows "(\<exists>w'. main lib w = (None, w')
          \<and> ncols (iloc_cols 1 df) = 0
          \<and> nrows (iloc_cols 1 df) = nrows df
          \<and> files w' output_file = Some (concat (replicate (nrows df + 1) (linesep lib))))
       \<and> (\<forall>text header rows. files w input_file = Some text \<longrightarrow> regular text header rows
            \<longrightarrow> length header = 1 \<and> nrows df = length rows)"
proof (rule conjI)
  have "to_csv lib (iloc_cols 1 df) = concat (replicate (nrows df + 1) (linesep lib))"
    using pd_read_csv_wf [OF assms(1)] assms(2) by (rule no_columns_output)
  with main_success [OF assms(1,3)] assms(2)
  show "\<exists>w'. main lib w = (None, w')
          \<and> ncols (iloc_cols 1 df) = 0
          \<and> nrows (iloc_cols 1 df) = nrows df
          \<and> files w' output_file = Some (concat (replicate (nrows df + 1) (linesep lib)))"
    by (simp add: print_def ncols_iloc nrows_iloc)
next
  show "\<forall>text header rows. files w input_file = Some text \<longrightarrow> regular text header rows
      \<longrightarrow> length header = 1 \<and> nrows df = length rows"
    using regular_loaded(2,3) [OF _ _ assms(1)] assms(2) by metis
qed

theorem C10_single_column_witness:
  "regular single_text [''A''] [[''1''], [''2'']]
   \<and> (\<exists>w'. main example_platform single_world = (None, w')
        \<and> files w' output_file = Some [CR, LF, CR, LF, CR, LF])"
proof -
  have f: "files single_world input_file = Some single_text"
    and wr: "writable single_world output_file"
    by (simp_all add: single_world_def)
  have reg: "regular single_text [''A''] [[''1''], [''2'']]"
    by (simp add: regular_def tokenize_single)
  then have "read_csv example_platform single_text = Inr \<lparr>columns = [''A''],
     body = rows_of (length [[''1''], [''2'']])
       (map (\<lambda>j. convert_column example_platform (length [''A''])
          (column j [[''1''], [''2'']])) [0..<length [''A'']])\<rparr>"
    by (intro read_csv_regular) (simp_all add: regular_def)
  then obtain df :: "unit frame" where
    r: "pd_read_csv example_platform single_world input_file = Inr df"
    and n: "ncols df = 1" "nrows df = 2"
    by (simp add: pd_read_csv_valid [OF f valid_texts(2)] ncols_def nrows_def rows_of_def)
  from C10_single_column [OF r n(1) wr]
  have "\<exists>w'. main example_platform single_world = (None, w')
      \<and> files w' output_file = Some [CR, LF, CR, LF, CR, LF]"
    by (auto simp: n(2) example_platform_def numeral_3_eq_3)
  with reg show ?thesis
    by simp
qed

end
